theory Spec2Isabelle
  imports Complex_Main "HOL-Library.AList"
begin

section \<open>The shared process state\<close>

text \<open>
  The fetch pipeline keeps its state in module-level maps: the rate buckets of
  \<^verbatim>\<open>rateLimiter.ts\<close>, the cookie jar of the fetcher and the health records of
  \<^verbatim>\<open>scrapeMetrics.ts\<close>. The model passes them around in one record, together with a
  logical clock that stands for \<^verbatim>\<open>Date.now()\<close> (milliseconds). JavaScript numbers are
  modelled as rationals: no rounding, no NaN, no infinities.
\<close>

record bucket =
  tokens :: rat
  last_t :: rat

record lastError =
  at_t :: rat
  error_status :: "int option"
  error_message :: string
  error_url :: "string option"

record ScrapeHealth =
  lastSuccess :: "rat option"
  lastError :: "lastError option"
  consecutiveFailures :: nat

text \<open>
  Cookie text is kept as a list of UTF-16 code units (numbers from 0 to 65535), the
  elements of a JavaScript string, because \<^verbatim>\<open>trim\<close> and \<^verbatim>\<open>split\<close> look at them
  one by one. The other strings (hosts, URLs, messages) are only compared and
  concatenated.
\<close>

type_synonym jstring = "int list"

definition js :: "string \<Rightarrow> jstring" where
  "js s = map of_char s"

text \<open>
  Every call of \<^verbatim>\<open>fetch\<close> is logged: the attempt it belongs to, the \<^verbatim>\<open>Cookie\<close> header
  it carried, the time it started, and the status it was answered with (\<open>None\<close> when
  \<^verbatim>\<open>fetch\<close> rejected: no answer, a timeout, an abort). The log is the model's call-count
  instrumentation; the program has no such field.
\<close>

record request =
  req_attempt :: nat
  req_cookie :: "jstring option"
  req_started :: rat
  req_answer :: "int option"

record world =
  clock :: rat
  buckets :: "string \<rightharpoonup> bucket"
  cookieJar :: "string \<rightharpoonup> (jstring \<times> jstring) list"
  metrics :: "string \<rightharpoonup> ScrapeHealth"
  sent :: "request list"

text \<open>
  \<^verbatim>\<open>sleep(ms)\<close> suspends the caller; in the model the clock moves on by exactly the
  requested time. A timer with a negative delay fires at once.
\<close>

definition sleep :: "rat \<Rightarrow> world \<Rightarrow> world" where
  "sleep ms w = w\<lparr>clock := clock w + max ms 0\<rparr>"

section \<open>rateLimiter.ts\<close>

text \<open>
  The refill at the head of \<^verbatim>\<open>limit\<close>: the bucket of the host, or a full one when the
  host has none, topped up for the time since its last use and capped at \<open>burst\<close>.
\<close>

definition refill :: "string \<Rightarrow> rat \<Rightarrow> rat \<Rightarrow> world \<Rightarrow> bucket" where
  "refill h rps burst w =
     (let now = clock w;
          b = (case buckets w h of Some b \<Rightarrow> b | None \<Rightarrow> \<lparr>tokens = burst, last_t = now\<rparr>);
          delta = (now - last_t b) / 1000
      in \<lparr>tokens = min burst (tokens b + delta * rps), last_t = now\<rparr>)"

text \<open>
  \<^verbatim>\<open>limit\<close> calls itself after the wait, so it may never return (a burst below one
  token never holds a whole token). The recursion is bounded by a fuel argument and
  \<open>None\<close> stands for a call that has not returned. A bucket found in the map is the
  object the code mutates, so the refill is visible in the map while the caller waits;
  a bucket created by \<^verbatim>\<open>??\<close> is stored only on the path that consumes a token.
  With \<open>rps = 0\<close> the wait is infinite in JavaScript and 0 here; either way no token is
  ever gained and the call does not return.
\<close>

fun limit :: "nat \<Rightarrow> string \<Rightarrow> rat \<Rightarrow> rat \<Rightarrow> world \<Rightarrow> world option" where
  "limit 0 h rps burst w = None"
| "limit (Suc fuel) h rps burst w =
     (let b = refill h rps burst w in
      if tokens b < 1 then
        let waitSeconds = (1 - tokens b) / rps;
            w1 = (case buckets w h of
                    Some _ \<Rightarrow> w\<lparr>buckets := (buckets w)(h \<mapsto> b)\<rparr>
                  | None \<Rightarrow> w)
        in limit fuel h rps burst (sleep (waitSeconds * 1000) w1)
      else Some (w\<lparr>buckets := (buckets w)(h \<mapsto> b\<lparr>tokens := tokens b - 1\<rparr>)\<rparr>))"

text \<open>The defaults of the destructured parameter: \<^verbatim>\<open>rps = 0.5, burst = 2\<close>.\<close>

definition limit_opts :: "nat \<Rightarrow> string \<Rightarrow> rat option \<Rightarrow> rat option \<Rightarrow> world \<Rightarrow> world option" where
  "limit_opts fuel h rps burst w =
     limit fuel h (case rps of Some r \<Rightarrow> r | None \<Rightarrow> 1 / 2)
                  (case burst of Some b \<Rightarrow> b | None \<Rightarrow> 2) w"

definition resetRateLimiter :: "string option \<Rightarrow> world \<Rightarrow> world" where
  "resetRateLimiter h w =
     (case h of
        Some k \<Rightarrow> if k \<noteq> [] then w\<lparr>buckets := (buckets w)(k := None)\<rparr>
                  else w\<lparr>buckets := Map.empty\<rparr>
      | None \<Rightarrow> w\<lparr>buckets := Map.empty\<rparr>)"

section \<open>scrapeMetrics.ts\<close>

definition getOrCreate :: "string \<Rightarrow> world \<Rightarrow> ScrapeHealth \<times> world" where
  "getOrCreate k w =
     (case metrics w k of
        Some entry \<Rightarrow> (entry, w)
      | None \<Rightarrow>
          (let entry = \<lparr>lastSuccess = None, lastError = None, consecutiveFailures = 0\<rparr>
           in (entry, w\<lparr>metrics := (metrics w)(k \<mapsto> entry)\<rparr>)))"

definition recordScrapeSuccess :: "string \<Rightarrow> world \<Rightarrow> world" where
  "recordScrapeSuccess k w =
     (case getOrCreate k w of
        (entry, w1) \<Rightarrow>
          w1\<lparr>metrics := (metrics w1)(k \<mapsto>
                entry\<lparr>lastSuccess := Some (clock w1), consecutiveFailures := 0\<rparr>)\<rparr>)"

definition recordScrapeFailure ::
  "string \<Rightarrow> int option \<Rightarrow> string \<Rightarrow> string option \<Rightarrow> world \<Rightarrow> world" where
  "recordScrapeFailure k st msg u w =
     (case getOrCreate k w of
        (entry, w1) \<Rightarrow>
          w1\<lparr>metrics := (metrics w1)(k \<mapsto>
                entry\<lparr>lastError := Some \<lparr>at_t = clock w1, error_status = st,
                                          error_message = msg, error_url = u\<rparr>,
                      consecutiveFailures := consecutiveFailures entry + 1\<rparr>)\<rparr>)"

text \<open>\<^verbatim>\<open>getScrapeHealth\<close> returns a copy; it creates the record of an unknown site.\<close>

definition getScrapeHealth :: "string \<Rightarrow> world \<Rightarrow> ScrapeHealth \<times> world" where
  "getScrapeHealth k w = getOrCreate k w"

text \<open>The counter as a reader of the health snapshot sees it (0 for an unknown site).\<close>

definition failures :: "world \<Rightarrow> string \<Rightarrow> nat" where
  "failures w k = (case metrics w k of Some entry \<Rightarrow> consecutiveFailures entry | None \<Rightarrow> 0)"

section \<open>errors.ts\<close>

text \<open>
  The values the fetcher throws or catches. \<open>ScraperError message status url site cause\<close>
  and \<open>FetchFailedError message attempt status url site\<close> are the classes of
  \<^verbatim>\<open>errors.ts\<close>; \<open>DOMException message name\<close> is what an aborted \<^verbatim>\<open>fetch\<close> rejects with
  (name \<^verbatim>\<open>AbortError\<close>), \<open>TypeError\<close> what a failed connection or an invalid URL gives,
  and \<open>Thrown name status\<close> any other value used as an abort reason, with the
  \<^verbatim>\<open>name\<close> and numeric \<^verbatim>\<open>status\<close> fields it may expose.
\<close>

datatype js_error =
    ScraperError string "int option" "string option" "string option" "js_error option"
  | FetchFailedError string nat "int option" string "string option"
  | DOMException string string
  | TypeError string
  | Thrown "string option" "int option"

fun name_of :: "js_error \<Rightarrow> string option" where
  "name_of (ScraperError m st u k c) = Some ''ScraperError''"
| "name_of (FetchFailedError m n st u k) = Some ''FetchFailedError''"
| "name_of (DOMException m nm) = Some nm"
| "name_of (TypeError m) = Some ''TypeError''"
| "name_of (Thrown nm st) = nm"

fun status_of :: "js_error \<Rightarrow> int option" where
  "status_of (ScraperError m st u k c) = st"
| "status_of (FetchFailedError m n st u k) = st"
| "status_of (DOMException m nm) = None"
| "status_of (TypeError m) = None"
| "status_of (Thrown nm st) = st"

fun instanceof_Error :: "js_error \<Rightarrow> bool" where
  "instanceof_Error (Thrown nm st) = False"
| "instanceof_Error e = True"

fun instanceof_FetchFailedError :: "js_error \<Rightarrow> bool" where
  "instanceof_FetchFailedError (FetchFailedError m n st u k) = True"
| "instanceof_FetchFailedError e = False"

fun message_of :: "js_error \<Rightarrow> string" where
  "message_of (ScraperError m st u k c) = m"
| "message_of (FetchFailedError m n st u k) = m"
| "message_of (DOMException m nm) = m"
| "message_of (TypeError m) = m"
| "message_of (Thrown nm st) = []"

text \<open>The \<^verbatim>\<open>attempt\<close> field, which only a \<^verbatim>\<open>FetchFailedError\<close> has.\<close>

fun attempt_of :: "js_error \<Rightarrow> nat option" where
  "attempt_of (FetchFailedError m n st u k) = Some n"
| "attempt_of e = None"

section \<open>Strings\<close>

text \<open>
  \<^verbatim>\<open>split\<close> on a one-character separator, \<^verbatim>\<open>trim\<close> and \<^verbatim>\<open>join\<close>. The white space that
  \<^verbatim>\<open>trim\<close> removes is the \<open>WhiteSpace\<close> and \<open>LineTerminator\<close> of the language: U+0009 to
  U+000D, U+0020, U+00A0, U+1680, U+2000 to U+200A, U+2028, U+2029, U+202F, U+205F,
  U+3000 and U+FEFF.
\<close>

fun split_on :: "'a \<Rightarrow> 'a list \<Rightarrow> 'a list list" where
  "split_on c [] = [[]]"
| "split_on c (x # xs) =
     (if x = c then [] # split_on c xs
      else (case split_on c xs of y # ys \<Rightarrow> (x # y) # ys | [] \<Rightarrow> [[x]]))"

definition is_space :: "int \<Rightarrow> bool" where
  "is_space c =
     ((0x09 \<le> c \<and> c \<le> 0x0D) \<or> c = 0x20 \<or> c = 0xA0 \<or> c = 0x1680 \<or>
      (0x2000 \<le> c \<and> c \<le> 0x200A) \<or> c = 0x2028 \<or> c = 0x2029 \<or> c = 0x202F \<or>
      c = 0x205F \<or> c = 0x3000 \<or> c = 0xFEFF)"

definition trim :: "jstring \<Rightarrow> jstring" where
  "trim s = rev (dropWhile is_space (rev (dropWhile is_space s)))"

fun join :: "'a list \<Rightarrow> 'a list list \<Rightarrow> 'a list" where
  "join sep [] = []"
| "join sep [x] = x"
| "join sep (x # y # ys) = x @ sep @ join sep (y # ys)"

text \<open>Decimal digits of a number, for the status in an error message.\<close>

fun digits :: "nat \<Rightarrow> string" where
  "digits n = (if n < 10 then [''0123456789'' ! n] else digits (n div 10) @ [''0123456789'' ! (n mod 10)])"

definition show_int :: "int \<Rightarrow> string" where
  "show_int i = (if i < 0 then CHR ''-'' # digits (nat (- i)) else digits (nat i))"

section \<open>The cookie jar of the fetcher\<close>

text \<open>
  A JavaScript \<^verbatim>\<open>Map\<close> keeps its keys in insertion order and \<^verbatim>\<open>set\<close> on a key it has
  replaces the value in place: an association list under \<^const>\<open>AList.update\<close>.
\<close>

type_synonym cookie_map = "(jstring \<times> jstring) list"

text \<open>The body of the \<^verbatim>\<open>forEach\<close> in \<^verbatim>\<open>append\<close>, for one trimmed, non-empty part.\<close>

definition set_part :: "jstring \<Rightarrow> cookie_map \<Rightarrow> cookie_map" where
  "set_part part cookieMap =
     (case split_on (of_char CHR ''='') part of
        [] \<Rightarrow> cookieMap
      | name # rest \<Rightarrow>
          if name = [] then cookieMap else AList.update name (join (js ''='') rest) cookieMap)"

definition cookie_parts :: "jstring \<Rightarrow> jstring list" where
  "cookie_parts cookieString =
     filter (\<lambda>part. part \<noteq> []) (map trim (split_on (of_char CHR '';'') cookieString))"

definition append_cookies :: "jstring \<Rightarrow> cookie_map \<Rightarrow> cookie_map" where
  "append_cookies cookieString cookieMap =
     foldl (\<lambda>m part. set_part part m) cookieMap (cookie_parts cookieString)"

text \<open>
  The \<open>(name, value)\<close> pairs that \<^verbatim>\<open>append\<close> sets for a cookie string, in the order in
  which it sets them; used to state what the override contributes.
\<close>

definition cookie_pairs :: "jstring \<Rightarrow> (jstring \<times> jstring) list" where
  "cookie_pairs cookieString =
     concat (map (\<lambda>part. case split_on (of_char CHR ''='') part of
                            [] \<Rightarrow> []
                          | name # rest \<Rightarrow> if name = [] then [] else [(name, join (js ''='') rest)])
                 (cookie_parts cookieString))"

text \<open>
  The map that \<^verbatim>\<open>buildCookieHeader\<close> has built when it reaches its last test: the stored
  cookies, then the override on top when the override is a non-empty string.
\<close>

definition merged_cookies :: "cookie_map \<Rightarrow> jstring option \<Rightarrow> cookie_map" where
  "merged_cookies stored override =
     (let cookieMap = foldl (\<lambda>m (key, val). AList.update key val m) [] stored
      in case override of
           None \<Rightarrow> cookieMap
         | Some s \<Rightarrow> if s \<noteq> [] then append_cookies s cookieMap else cookieMap)"

definition stored_cookies :: "world \<Rightarrow> string \<Rightarrow> cookie_map" where
  "stored_cookies w h = (case cookieJar w h of Some m \<Rightarrow> m | None \<Rightarrow> [])"

definition buildCookieHeader :: "world \<Rightarrow> string \<Rightarrow> jstring option \<Rightarrow> jstring option" where
  "buildCookieHeader w h override =
     (let stored = stored_cookies w h in
      if (override = None \<or> override = Some []) \<and> stored = [] then None
      else
        let cookieMap = merged_cookies stored override in
        if cookieMap = [] then None
        else Some (join (js ''; '') (map (\<lambda>(key, val). key @ js ''='' @ val) cookieMap)))"

text \<open>
  The header as the specification words it, to compare \<^const>\<open>buildCookieHeader\<close> with.
  \<open>override_pairs\<close>: the pairs the override contributes. \<open>header_names\<close>: every name
  that is stored or set by the override, once, in the order of its first appearance
  (stored names first). \<open>header_value\<close>: the value the override gives the name (the last
  one, when it names it twice), and the stored value only when the override does not set
  the name.
\<close>

definition override_pairs :: "jstring option \<Rightarrow> (jstring \<times> jstring) list" where
  "override_pairs override = (case override of Some s \<Rightarrow> cookie_pairs s | None \<Rightarrow> [])"

definition first_seen :: "'a list \<Rightarrow> 'a list" where
  "first_seen xs = rev (remdups (rev xs))"

definition header_names :: "cookie_map \<Rightarrow> jstring option \<Rightarrow> jstring list" where
  "header_names stored override = first_seen (map fst stored @ map fst (override_pairs override))"

definition header_value :: "cookie_map \<Rightarrow> jstring option \<Rightarrow> jstring \<Rightarrow> jstring" where
  "header_value stored override n =
     (case map_of (rev (override_pairs override)) n of
        Some v \<Rightarrow> v
      | None \<Rightarrow> (case map_of (rev stored) n of Some v \<Rightarrow> v | None \<Rightarrow> []))"

text \<open>
  A raw override \<^verbatim>\<open>"k=v; k2=v2"\<close> written from a list of pairs. A pair can be read back
  when its name is not empty, does not start with white space and has no \<^verbatim>\<open>=\<close>, its
  value does not end with white space, and neither holds a \<^verbatim>\<open>;\<close>.
\<close>

definition pair_text :: "jstring \<times> jstring \<Rightarrow> jstring" where
  "pair_text p = (case p of (k, v) \<Rightarrow> k @ js ''='' @ v)"

definition clean_pair :: "jstring \<times> jstring \<Rightarrow> bool" where
  "clean_pair p =
     (case p of (k, v) \<Rightarrow>
        k \<noteq> [] \<and> \<not> is_space (hd k) \<and> (v \<noteq> [] \<longrightarrow> \<not> is_space (last v)) \<and>
        of_char CHR '';'' \<notin> set k \<and> of_char CHR '';'' \<notin> set v \<and> of_char CHR ''='' \<notin> set k)"

text \<open>
  The response as the fetcher reads it. \<open>getSetCookie\<close> is the result of the method of
  that name, a list of strings (\<open>None\<close> where the runtime has no such method),
  \<open>set_cookie\<close> is \<^verbatim>\<open>headers.get("set-cookie")\<close>.
\<close>

record response =
  status :: int
  getSetCookie :: "jstring list option"
  set_cookie :: "jstring option"
  location :: "string option"
  response_url :: string

definition ok :: "response \<Rightarrow> bool" where
  "ok r = (200 \<le> status r \<and> status r \<le> 299)"

text \<open>
  The split of the fallback header on \<^verbatim>\<open>/,(?=[^;]+?=)/g\<close>: a comma is a separator when
  the text after it reaches an \<^verbatim>\<open>=\<close>, behind at least one character, before any \<^verbatim>\<open>;\<close>.
\<close>

definition lookahead :: "jstring \<Rightarrow> bool" where
  "lookahead s = (of_char CHR ''='' \<in> set (tl (takeWhile (\<lambda>c. c \<noteq> of_char CHR '';'') s)))"

fun split_set_cookie :: "jstring \<Rightarrow> jstring list" where
  "split_set_cookie [] = [[]]"
| "split_set_cookie (x # xs) =
     (if x = of_char CHR '','' \<and> lookahead xs then [] # split_set_cookie xs
      else (case split_set_cookie xs of y # ys \<Rightarrow> (x # y) # ys | [] \<Rightarrow> [[x]]))"

text \<open>The body of the loop of \<^verbatim>\<open>storeCookies\<close>, for one cookie.\<close>

definition store_cookie :: "jstring \<Rightarrow> cookie_map \<Rightarrow> cookie_map" where
  "store_cookie cookie store =
     (case split_on (of_char CHR '';'') cookie of
        [] \<Rightarrow> store
      | pair # _ \<Rightarrow>
          if pair = [] then store
          else (case split_on (of_char CHR ''='') (trim pair) of
                  [] \<Rightarrow> store
                | name # rest \<Rightarrow>
                    if name = [] then store else AList.update name (join (js ''='') rest) store))"

definition storeCookies :: "string \<Rightarrow> response \<Rightarrow> world \<Rightarrow> world" where
  "storeCookies h r w =
     (let rawSetCookie = (case getSetCookie r of Some l \<Rightarrow> l | None \<Rightarrow> []);
          parts = (case set_cookie r of
                     Some fallback \<Rightarrow> if fallback \<noteq> [] then split_set_cookie fallback else []
                   | None \<Rightarrow> []);
          cookies = rawSetCookie @ parts
      in if cookies = [] then w
         else w\<lparr>cookieJar := (cookieJar w)(h \<mapsto>
                  foldl (\<lambda>store cookie. store_cookie cookie store) (stored_cookies w h) cookies)\<rparr>)"

section \<open>The fetcher\<close>

text \<open>
  The options of one logical fetch. \<^verbatim>\<open>method\<close>, \<^verbatim>\<open>headers\<close> and \<^verbatim>\<open>body\<close> only shape the
  request that goes out; the answer of the upstream is an input of the model, so they
  are left out, and of the headers only \<^verbatim>\<open>Cookie\<close> is built (the rotation of
  \<^verbatim>\<open>User-Agent\<close> and \<^verbatim>\<open>Accept-Language\<close> is not modelled). \<^verbatim>\<open>maxRetries\<close> is a whole
  number: the code only compares it with the attempt number by \<^verbatim>\<open><=\<close>, so a fractional
  value acts as the whole number below it. An abort signal is given by the time at which
  it aborts, if ever, and by its reason.
\<close>

record abort_signal =
  abort_at :: "rat option"
  reason :: js_error

record FetchRequestOptions =
  url :: string
  cookies :: "jstring option"
  site :: "string option"
  maxRetries :: "int option"
  timeoutMs :: "rat option"
  signal :: "abort_signal option"
  rps :: "rat option"
  burst :: "rat option"

text \<open>
  What the program cannot decide: the answer to the \<open>n\<close>-th attempt and the time it takes
  to arrive, the value \<^verbatim>\<open>Math.random()\<close> returns in the \<open>n\<close>-th attempt, and the host
  that \<^verbatim>\<open>new URL(url)\<close> finds (\<open>None\<close> when the URL does not parse).
\<close>

record exchange =
  took :: rat
  result :: "js_error + response"

record env =
  upstream :: "nat \<Rightarrow> exchange"
  math_random :: "nat \<Rightarrow> rat"
  host_of :: "string \<Rightarrow> string option"

definition RETRY_STATUS :: "int set" where
  "RETRY_STATUS = {403, 429, 500, 502, 503, 504}"

definition max_retries :: "FetchRequestOptions \<Rightarrow> int" where
  "max_retries opts = (case maxRetries opts of Some m \<Rightarrow> m | None \<Rightarrow> 3)"

definition timeout_ms :: "FetchRequestOptions \<Rightarrow> rat" where
  "timeout_ms opts = (case timeoutMs opts of Some t \<Rightarrow> t | None \<Rightarrow> 25000)"

text \<open>\<^verbatim>\<open>signal.aborted\<close> read at time \<open>t\<close>.\<close>

definition aborted :: "FetchRequestOptions \<Rightarrow> rat \<Rightarrow> bool" where
  "aborted opts t =
     (case signal opts of
        None \<Rightarrow> False
      | Some sg \<Rightarrow> (case abort_at sg of None \<Rightarrow> False | Some T \<Rightarrow> T \<le> t))"

text \<open>
  The awaited \<^verbatim>\<open>fetch\<close> under the attempt's controller. The external signal, when it
  aborts while the request is in flight, makes \<^verbatim>\<open>fetch\<close> reject with the signal's
  reason at that moment; otherwise the timer, when it fires before the answer is there,
  makes it reject with the \<^verbatim>\<open>AbortError\<close> of the timeout; otherwise the answer of the
  upstream arrives.
\<close>

definition do_fetch ::
  "env \<Rightarrow> FetchRequestOptions \<Rightarrow> string \<Rightarrow> nat \<Rightarrow> world \<Rightarrow> (js_error + response) \<times> world" where
  "do_fetch e opts h attempt w =
     (let start = clock w;
          x = upstream e attempt;
          d = max (took x) 0;
          tmo = max (timeout_ms opts) 0;
          cookieHeader = buildCookieHeader w h (cookies opts);
          cut = (case signal opts of
                   None \<Rightarrow> None
                 | Some sg \<Rightarrow>
                     (case abort_at sg of
                        None \<Rightarrow> None
                      | Some T \<Rightarrow> if T < start + min d tmo then Some (T, reason sg) else None));
          (given, finish) =
            (case cut of
               Some (T, why) \<Rightarrow> (Inl why, max start T)
             | None \<Rightarrow>
                 if tmo \<le> d
                 then (Inl (DOMException ''Request timed out'' ''AbortError''), start + tmo)
                 else (result x, start + d))
      in (given,
          w\<lparr>sent := sent w @
               [\<lparr>req_attempt = attempt, req_cookie = cookieHeader, req_started = start,
                 req_answer = (case given of Inr r \<Rightarrow> Some (status r) | Inl err \<Rightarrow> None)\<rparr>],
            clock := finish\<rparr>))"

text \<open>How one pass of the \<^verbatim>\<open>while (true)\<close> loop ends.\<close>

datatype step = Continue world | Return response world | Throw js_error world

text \<open>The \<^verbatim>\<open>catch\<close> block.\<close>

definition on_caught ::
  "env \<Rightarrow> FetchRequestOptions \<Rightarrow> string \<Rightarrow> nat \<Rightarrow> js_error \<Rightarrow> world \<Rightarrow> step" where
  "on_caught e opts siteKey attempt err w =
     (let st = status_of err in
      if name_of err = Some ''AbortError'' \<and> int attempt \<le> max_retries opts then
        Continue (sleep (300 * 2 ^ (attempt - 1) + math_random e attempt * 150) w)
      else if int attempt \<le> max_retries opts \<and>
              (instanceof_FetchFailedError err \<or>
               (case st of Some n \<Rightarrow> n | None \<Rightarrow> 0) \<in> RETRY_STATUS) then
        Continue (sleep (600 * 2 ^ (attempt - 1) + math_random e attempt * 400) w)
      else
        let msg = (if instanceof_Error err then message_of err else ''Unknown fetch error'')
        in Throw (ScraperError msg st (Some (url opts)) (Some siteKey) (Some err))
                 (recordScrapeFailure siteKey st msg (Some (url opts)) w))"

text \<open>
  The rest of the \<^verbatim>\<open>try\<close> block once \<^verbatim>\<open>fetch\<close> has resolved. The \<^verbatim>\<open>throw\<close> of the
  \<^verbatim>\<open>FetchFailedError\<close> is inside the \<^verbatim>\<open>try\<close>, so the \<^verbatim>\<open>catch\<close> block receives it.
\<close>

definition on_response ::
  "env \<Rightarrow> FetchRequestOptions \<Rightarrow> string \<Rightarrow> string \<Rightarrow> nat \<Rightarrow> response \<Rightarrow> world \<Rightarrow> step" where
  "on_response e opts h siteKey attempt r w =
     (if status r \<in> RETRY_STATUS \<and> int attempt \<le> max_retries opts then
        Continue (sleep (500 * 2 ^ (attempt - 1) + math_random e attempt * 250) w)
      else if \<not> ok r then
        let msg = ''Fetch failed with status '' @ show_int (status r);
            err = FetchFailedError msg attempt (Some (status r)) (url opts) (Some siteKey);
            w1 = recordScrapeFailure siteKey (Some (status r)) msg (Some (url opts)) w
        in on_caught e opts siteKey attempt err w1
      else Return r (storeCookies h r w))"

text \<open>
  One pass of the loop, for the attempt number already incremented. \<open>None\<close>: the rate
  limiter has not returned. The test of \<^verbatim>\<open>signal.aborted\<close> stands before the \<^verbatim>\<open>try\<close>, so
  its error leaves the function as it is.
\<close>

definition fetch_attempt ::
  "env \<Rightarrow> nat \<Rightarrow> FetchRequestOptions \<Rightarrow> string \<Rightarrow> string \<Rightarrow> nat \<Rightarrow> world \<Rightarrow> step option" where
  "fetch_attempt e fuel opts h siteKey attempt w =
     (case limit_opts fuel h (rps opts) (burst opts) w of
        None \<Rightarrow> None
      | Some w1 \<Rightarrow>
          if aborted opts (clock w1) then
            Some (Throw (ScraperError ''Request aborted'' None (Some (url opts)) (Some siteKey) None) w1)
          else
            (case do_fetch e opts h attempt w1 of
               (Inr r, w2) \<Rightarrow> Some (on_response e opts h siteKey attempt r w2)
             | (Inl err, w2) \<Rightarrow> Some (on_caught e opts siteKey attempt err w2)))"

text \<open>
  The loop, entered with the number of attempts made so far. \<open>None\<close>: the call has not
  returned; otherwise the response or the error thrown, and the state left behind.
\<close>

function fetch_loop ::
  "env \<Rightarrow> nat \<Rightarrow> FetchRequestOptions \<Rightarrow> string \<Rightarrow> string \<Rightarrow> nat \<Rightarrow> world
     \<Rightarrow> ((js_error + response) \<times> world) option" where
  "fetch_loop e fuel opts h siteKey attempt w =
     (case fetch_attempt e fuel opts h siteKey (attempt + 1) w of
        None \<Rightarrow> None
      | Some (Continue w') \<Rightarrow> fetch_loop e fuel opts h siteKey (attempt + 1) w'
      | Some (Return r w') \<Rightarrow> Some (Inr r, w')
      | Some (Throw err w') \<Rightarrow> Some (Inl err, w'))"
  by pat_completeness auto
termination
proof (relation "measure (\<lambda>(e, fuel, opts, h, siteKey, attempt, w). nat (max_retries opts - int attempt))")
  show "wf (measure (\<lambda>(e, fuel, opts, h, siteKey, attempt, w). nat (max_retries opts - int attempt)))"
    by simp
next
  fix e fuel opts h siteKey attempt w x2 x1
  assume a: "fetch_attempt e fuel opts h siteKey (attempt + 1) w = Some x2" and b: "x2 = Continue x1"
  have "int (attempt + 1) \<le> max_retries opts"
    using a b
    by (auto simp: fetch_attempt_def on_response_def on_caught_def Let_def
             split: option.splits if_splits prod.splits sum.splits)
  then show "((e, fuel, opts, h, siteKey, attempt + 1, x1), (e, fuel, opts, h, siteKey, attempt, w))
      \<in> measure (\<lambda>(e, fuel, opts, h, siteKey, attempt, w). nat (max_retries opts - int attempt))"
    by simp
qed

text \<open>The recursive equation of the loop is applied by hand in the proofs.\<close>

declare fetch_loop.simps [simp del]

text \<open>\<^verbatim>\<open>siteKey = site ?? host\<close>.\<close>

definition site_key :: "FetchRequestOptions \<Rightarrow> string \<Rightarrow> string" where
  "site_key opts h = (case site opts of Some k \<Rightarrow> k | None \<Rightarrow> h)"

text \<open>
  The call. \<^verbatim>\<open>new URL(url)\<close> stands before the loop and throws a \<^verbatim>\<open>TypeError\<close> for a URL
  that does not parse.
\<close>

definition fetchResponse ::
  "env \<Rightarrow> nat \<Rightarrow> FetchRequestOptions \<Rightarrow> world \<Rightarrow> ((js_error + response) \<times> world) option" where
  "fetchResponse e fuel opts w =
     (case host_of e (url opts) of
        None \<Rightarrow> Some (Inl (TypeError ''Invalid URL''), w)
      | Some h \<Rightarrow> fetch_loop e fuel opts h (site_key opts h) 0 w)"

text \<open>
  The error that leaves \<^verbatim>\<open>fetchResponse\<close> when the last attempt was answered with a
  status that is not ok: the \<^verbatim>\<open>ScraperError\<close> built by the \<^verbatim>\<open>catch\<close> block around the
  \<^verbatim>\<open>FetchFailedError\<close> thrown in the \<^verbatim>\<open>try\<close> block.
\<close>

definition exhausted_error :: "FetchRequestOptions \<Rightarrow> string \<Rightarrow> int \<Rightarrow> nat \<Rightarrow> js_error" where
  "exhausted_error opts siteKey st attempt =
     (let msg = ''Fetch failed with status '' @ show_int st
      in ScraperError msg (Some st) (Some (url opts)) (Some siteKey)
           (Some (FetchFailedError msg attempt (Some st) (url opts) (Some siteKey))))"

definition last_success :: "world \<Rightarrow> string \<Rightarrow> rat option" where
  "last_success w k = (case metrics w k of Some entry \<Rightarrow> lastSuccess entry | None \<Rightarrow> None)"

fun world_of :: "step \<Rightarrow> world" where
  "world_of (Continue w) = w"
| "world_of (Return r w) = w"
| "world_of (Throw err w) = w"

text \<open>
  What a test sees of a finished call, for a host and a site: the response or the error,
  the number of requests sent, the failure counter and the last success of the site, the
  cookies stored for the host, and the time.
\<close>

definition observe ::
  "string \<Rightarrow> string \<Rightarrow> ((js_error + response) \<times> world) option
     \<Rightarrow> ((js_error + response) \<times> nat \<times> nat \<times> rat option \<times> cookie_map \<times> rat) option" where
  "observe h k x =
     map_option (\<lambda>(r, w). (r, length (sent w), failures w k, last_success w k,
                            stored_cookies w h, clock w)) x"

text \<open>
  Conditions on a run, used to state properties. \<open>quiet\<close>: no abort signal, and every
  answer arrives before the timer fires. \<open>limiter_ok\<close>: the rate and the burst (given or
  default) let \<^verbatim>\<open>limit\<close> return. \<open>all_failing\<close>: the upstream answers every attempt, and
  never with a 2xx status. \<open>answered e n\<close>: the status of the answer to attempt \<open>n\<close>
  (0 when the upstream gives none).
\<close>

definition quiet :: "env \<Rightarrow> FetchRequestOptions \<Rightarrow> bool" where
  "quiet e opts = (signal opts = None \<and> (\<forall>n. max (took (upstream e n)) 0 < timeout_ms opts))"

definition limiter_ok :: "FetchRequestOptions \<Rightarrow> bool" where
  "limiter_ok opts =
     (0 < (case rps opts of Some r \<Rightarrow> r | None \<Rightarrow> 1 / 2) \<and>
      1 \<le> (case burst opts of Some b \<Rightarrow> b | None \<Rightarrow> 2))"

definition failing :: "env \<Rightarrow> nat \<Rightarrow> bool" where
  "failing e n = (case result (upstream e n) of Inr r \<Rightarrow> \<not> ok r | Inl err \<Rightarrow> False)"

definition all_failing :: "env \<Rightarrow> bool" where
  "all_failing e = (\<forall>n. failing e n)"

definition answered :: "env \<Rightarrow> nat \<Rightarrow> int" where
  "answered e n = (case result (upstream e n) of Inr r \<Rightarrow> status r | Inl err \<Rightarrow> 0)"

text \<open>
  What the log tells about a call that started in \<open>w\<close> and ended in \<open>w'\<close>.
  \<open>new_requests\<close>: the requests the call has sent. \<open>hard_answer q\<close>: the request was
  answered, with a status that is neither ok nor in \<^const>\<open>RETRY_STATUS\<close>.
  \<open>exhausted_answer opts q\<close>: the request was answered with a status that is not ok, in
  an attempt beyond the retry budget. \<open>ended_exhausted\<close>: the last request of the call was
  so answered.
\<close>

definition new_requests :: "world \<Rightarrow> world \<Rightarrow> request list" where
  "new_requests w w' = drop (length (sent w)) (sent w')"

definition hard_answer :: "request \<Rightarrow> bool" where
  "hard_answer q =
     (case req_answer q of
        Some st \<Rightarrow> \<not> (200 \<le> st \<and> st \<le> 299) \<and> st \<notin> RETRY_STATUS
      | None \<Rightarrow> False)"

definition exhausted_answer :: "FetchRequestOptions \<Rightarrow> request \<Rightarrow> bool" where
  "exhausted_answer opts q =
     (case req_answer q of
        Some st \<Rightarrow> \<not> (200 \<le> st \<and> st \<le> 299) \<and> \<not> int (req_attempt q) \<le> max_retries opts
      | None \<Rightarrow> False)"

definition ended_exhausted :: "FetchRequestOptions \<Rightarrow> world \<Rightarrow> world \<Rightarrow> bool" where
  "ended_exhausted opts w w' =
     (new_requests w w' \<noteq> [] \<and> exhausted_answer opts (last (new_requests w w')))"

section \<open>dataFetcher.ts: getFinalUrls\<close>






section \<open>The cache middleware\<close>

text \<open>The values that pass through the cache: parsed JSON bodies and text bodies.\<close>

datatype json =
    JNull | JBool bool | JNum rat | JStr string | JArr "json list" | JObj "(string \<times> json) list"

fun truthy :: "json \<Rightarrow> bool" where
  "truthy JNull = False"
| "truthy (JBool b) = b"
| "truthy (JNum n) = (n \<noteq> 0)"
| "truthy (JStr s) = (s \<noteq> [])"
| "truthy (JArr xs) = True"
| "truthy (JObj kvs) = True"

text \<open>\<^verbatim>\<open>typeof v === "object"\<close>, and the property \<^verbatim>\<open>v.ok\<close> (\<open>None\<close> for \<^verbatim>\<open>undefined\<close>).\<close>

fun typeof_object :: "json \<Rightarrow> bool" where
  "typeof_object JNull = True"
| "typeof_object (JArr xs) = True"
| "typeof_object (JObj kvs) = True"
| "typeof_object v = False"

fun prop_ok :: "json \<Rightarrow> json option" where
  "prop_ok (JObj kvs) = map_of kvs ''ok''"
| "prop_ok v = None"

text \<open>
  Modelled from the spec: \<^verbatim>\<open>src/libs/lruCache.ts\<close>, which holds the shared \<^verbatim>\<open>cache\<close> and
  \<^verbatim>\<open>defaultTTL\<close>, is not among the sources. An entry of the cache is
  \<open>{key, value, expiresAt}\<close>; the entries are kept most recently used first, and their
  number is bounded by a maximum that the model takes as a parameter.
\<close>

record CacheEntry =
  entry_key :: string
  entry_value :: json
  expiresAt :: rat

text \<open>
  Modelled from the spec: the constant \<^verbatim>\<open>defaultTTL\<close> of \<^verbatim>\<open>src/libs/lruCache.ts\<close>; the
  default TTL is one minute.
\<close>

definition defaultTTL :: rat where
  "defaultTTL = 60000"

text \<open>
  Modelled from the spec: \<^verbatim>\<open>cache.get\<close> of \<^verbatim>\<open>src/libs/lruCache.ts\<close>. An entry is live while
  \<open>now < expiresAt\<close>; a live entry is returned and becomes the most recently used one,
  an expired entry is dropped.
\<close>

definition cache_get :: "rat \<Rightarrow> string \<Rightarrow> CacheEntry list \<Rightarrow> json option \<times> CacheEntry list" where
  "cache_get t k c =
     (case find (\<lambda>x. entry_key x = k) c of
        None \<Rightarrow> (None, c)
      | Some x \<Rightarrow>
          if t < expiresAt x then (Some (entry_value x), x # filter (\<lambda>y. entry_key y \<noteq> k) c)
          else (None, filter (\<lambda>y. entry_key y \<noteq> k) c))"

text \<open>
  Modelled from the spec: \<^verbatim>\<open>cache.set\<close> of \<^verbatim>\<open>src/libs/lruCache.ts\<close>. With \<open>ttl > 0\<close> the
  entry \<open>{key, value, expiresAt: now + ttl}\<close> is stored as the most recently used one, and
  the least recently used entries beyond the maximum count are evicted.
\<close>

definition cache_set ::
  "nat \<Rightarrow> rat \<Rightarrow> string \<Rightarrow> json \<Rightarrow> rat \<Rightarrow> CacheEntry list \<Rightarrow> CacheEntry list" where
  "cache_set mx t k v ttl c =
     (if 0 < ttl
      then take mx (\<lparr>entry_key = k, entry_value = v, expiresAt = t + ttl\<rparr> # filter (\<lambda>y. entry_key y \<noteq> k) c)
      else c)"

text \<open>The live value under a key, as \<open>get\<close> would return it.\<close>

definition live_value :: "rat \<Rightarrow> string \<Rightarrow> CacheEntry list \<Rightarrow> json option" where
  "live_value t k c = fst (cache_get t k c)"

text \<open>
  The middleware. The request is reduced to the two parts of its URL that make the key;
  the downstream handler answers with a status and a body, and the number of times it
  has been called is counted in the state. \<open>parse_json\<close> stands for \<^verbatim>\<open>Response.json()\<close>
  (\<open>None\<close> when it throws). The reply is what the middleware leaves as the response:
  \<^verbatim>\<open>c.json(v)\<close>, \<^verbatim>\<open>c.text(s)\<close>, \<^verbatim>\<open>c.text(String(v))\<close> or the response of the handler.
\<close>

record request_ctx =
  pathname :: string
  search :: string

record http_response =
  http_status :: int
  http_body :: string

datatype reply = Json_reply json | Text_reply string | String_reply json | Downstream http_response

datatype responseType = Json | Text

record cache_state =
  entries :: "CacheEntry list"
  now :: rat
  calls :: nat

text \<open>The part of \<^verbatim>\<open>serverCache\<close> after the cache lookup has found nothing to return.\<close>

definition on_miss ::
  "nat \<Rightarrow> (string \<Rightarrow> json option) \<Rightarrow> (request_ctx \<Rightarrow> nat \<Rightarrow> http_response) \<Rightarrow> rat \<Rightarrow> responseType
     \<Rightarrow> request_ctx \<Rightarrow> string \<Rightarrow> cache_state \<Rightarrow> reply \<times> cache_state" where
  "on_miss mx parse_json H newTTL rt c k st =
     (let res = H c (calls st);
          st1 = st\<lparr>calls := calls st + 1\<rparr>
      in if http_status res < 399 then
           (case rt of
              Json \<Rightarrow>
                (case parse_json (http_body res) of
                   None \<Rightarrow> (Downstream res, st1)
                 | Some body \<Rightarrow>
                     if truthy body \<and> typeof_object body \<and>
                        (case prop_ok body of Some v \<Rightarrow> truthy v | None \<Rightarrow> False)
                     then (Downstream res,
                           st1\<lparr>entries := cache_set mx (now st1) k body newTTL (entries st1)\<rparr>)
                     else (Downstream res, st1))
            | Text \<Rightarrow>
                (Downstream res,
                 st1\<lparr>entries := cache_set mx (now st1) k (JStr (http_body res)) newTTL (entries st1)\<rparr>))
         else (Downstream res, st1))"

definition serverCache ::
  "nat \<Rightarrow> (string \<Rightarrow> json option) \<Rightarrow> (request_ctx \<Rightarrow> nat \<Rightarrow> http_response) \<Rightarrow> rat option
     \<Rightarrow> responseType \<Rightarrow> request_ctx \<Rightarrow> cache_state \<Rightarrow> reply \<times> cache_state" where
  "serverCache mx parse_json H ttl rt c st =
     (let newTTL = (case ttl of
                      Some t \<Rightarrow> if t \<noteq> 0 then 1000 * 60 * t else defaultTTL
                    | None \<Rightarrow> defaultTTL);
          k = pathname c @ search c
      in case cache_get (now st) k (entries st) of
           (cachedData, es) \<Rightarrow>
             (let st1 = st\<lparr>entries := es\<rparr> in
              case cachedData of
                None \<Rightarrow> on_miss mx parse_json H newTTL rt c k st1
              | Some v \<Rightarrow>
                  if truthy v then
                    (if typeof_object v then (Json_reply v, st1)
                     else (case v of JStr s \<Rightarrow> (Text_reply s, st1) | _ \<Rightarrow> (String_reply v, st1)))
                  else on_miss mx parse_json H newTTL rt c k st1))"

section \<open>Example states and inputs\<close>

text \<open>A bucket that was emptied at time 0, and the same bucket one second later.\<close>

definition w_drained :: world where
  "w_drained = \<lparr>clock = 0, buckets = [''site.test'' \<mapsto> \<lparr>tokens = 0, last_t = 0\<rparr>],
     cookieJar = Map.empty, metrics = Map.empty, sent = []\<rparr>"

definition w_refilled :: world where
  "w_refilled = \<lparr>clock = 1000, buckets = [''site.test'' \<mapsto> \<lparr>tokens = 0, last_t = 1000\<rparr>],
     cookieJar = Map.empty, metrics = Map.empty, sent = []\<rparr>"

text \<open>A jar that holds two cookies for one host.\<close>

definition w_cookies :: world where
  "w_cookies = \<lparr>clock = 0, buckets = Map.empty,
     cookieJar = [''site.test'' \<mapsto> [(js ''a'', js ''1''), (js ''b'', js ''2'')]],
     metrics = Map.empty, sent = []\<rparr>"


text \<open>
  Inputs for the cache middleware: an empty cache, a request, a handler that answers
  with the text \<open>hello\<close>, one that answers with an empty text, and one that answers with
  a JSON payload whose \<open>ok\<close> flag is true (with the parser that reads it); a payload
  whose \<open>ok\<close> is the number 1.
\<close>

definition st_empty :: cache_state where
  "st_empty = \<lparr>entries = [], now = 0, calls = 0\<rparr>"

definition ctx_a :: request_ctx where
  "ctx_a = \<lparr>pathname = ''/a'', search = ''?page=1''\<rparr>"

definition no_json :: "string \<Rightarrow> json option" where
  "no_json s = None"

definition H_hello :: "request_ctx \<Rightarrow> nat \<Rightarrow> http_response" where
  "H_hello c n = \<lparr>http_status = 200, http_body = ''hello''\<rparr>"

definition H_blank :: "request_ctx \<Rightarrow> nat \<Rightarrow> http_response" where
  "H_blank c n = \<lparr>http_status = 200, http_body = []\<rparr>"

definition payload_ok :: json where
  "payload_ok = JObj [(''statusCode'', JNum 200), (''ok'', JBool True), (''data'', JArr [])]"

definition parse_payload :: "string \<Rightarrow> json option" where
  "parse_payload s = (if s = ''{payload}'' then Some payload_ok else None)"

definition H_payload :: "request_ctx \<Rightarrow> nat \<Rightarrow> http_response" where
  "H_payload c n = \<lparr>http_status = 200, http_body = ''{payload}''\<rparr>"

definition payload_one :: json where
  "payload_one = JObj [(''ok'', JNum 1)]"

definition parse_one :: "string \<Rightarrow> json option" where
  "parse_one s = (if s = ''{one}'' then Some payload_one else None)"

definition H_one :: "request_ctx \<Rightarrow> nat \<Rightarrow> http_response" where
  "H_one c n = \<lparr>http_status = 200, http_body = ''{one}''\<rparr>"

text \<open>The cache after one request for the empty text in text mode.\<close>

definition st_blank :: cache_state where
  "st_blank = snd (serverCache 10 no_json H_blank None Text ctx_a st_empty)"

text \<open>
  A fresh process; an upstream that answers every attempt with the same status after
  10 ms; the options of a call with \<^verbatim>\<open>maxRetries = 2\<close> and everything else left to its
  default.
\<close>

definition w_fresh :: world where
  "w_fresh = \<lparr>clock = 0, buckets = Map.empty, cookieJar = Map.empty, metrics = Map.empty, sent = []\<rparr>"

definition answer :: "int \<Rightarrow> response" where
  "answer n = \<lparr>status = n, getSetCookie = None, set_cookie = None, location = None,
     response_url = ''https://site.test/a''\<rparr>"

definition env_always :: "int \<Rightarrow> env" where
  "env_always n = \<lparr>upstream = (\<lambda>k. \<lparr>took = 10, result = Inr (answer n)\<rparr>),
     math_random = (\<lambda>k. 0), host_of = (\<lambda>u. Some ''site.test'')\<rparr>"

definition opts_retry :: "int \<Rightarrow> FetchRequestOptions" where
  "opts_retry m = \<lparr>url = ''https://site.test/a'', cookies = None, site = None, maxRetries = Some m,
     timeoutMs = None, signal = None, rps = None, burst = None\<rparr>"

text \<open>
  A site with two failures on record and no success yet, and an upstream that answers
  200 and sets a cookie.
\<close>

definition w_two_failures :: world where
  "w_two_failures = \<lparr>clock = 0, buckets = Map.empty, cookieJar = Map.empty,
     metrics = [''site.test'' \<mapsto> \<lparr>lastSuccess = None,
        lastError = Some \<lparr>at_t = 0, error_status = Some 503,
                          error_message = ''Fetch failed with status 503'',
                          error_url = Some ''https://site.test/a''\<rparr>,
        consecutiveFailures = 2\<rparr>],
     sent = []\<rparr>"

definition answer_cookie :: response where
  "answer_cookie = \<lparr>status = 200, getSetCookie = Some [js ''sid=abc; Path=/; HttpOnly''],
     set_cookie = None, location = None, response_url = ''https://site.test/a''\<rparr>"

definition env_cookie :: env where
  "env_cookie = \<lparr>upstream = (\<lambda>k. \<lparr>took = 10, result = Inr answer_cookie\<rparr>),
     math_random = (\<lambda>k. 0), host_of = (\<lambda>u. Some ''site.test'')\<rparr>"




text \<open>
  The fresh process once the rate limiter has let the first attempt for the host
  through: one of the two tokens of the new bucket is gone.
\<close>

definition w_admitted :: world where
  "w_admitted = \<lparr>clock = 0, buckets = [''site.test'' \<mapsto> \<lparr>tokens = 1, last_t = 0\<rparr>],
     cookieJar = Map.empty, metrics = Map.empty, sent = []\<rparr>"

text \<open>
  An upstream whose answer to the first attempt needs 30 s, more than the default
  timeout, and which answers every later attempt with the same status after 10 ms.
\<close>

definition env_timeout_then :: "int \<Rightarrow> env" where
  "env_timeout_then n =
     \<lparr>upstream = (\<lambda>k. if k = 1 then \<lparr>took = 30000, result = Inr (answer 200)\<rparr>
                       else \<lparr>took = 10, result = Inr (answer n)\<rparr>),
      math_random = (\<lambda>k. 0), host_of = (\<lambda>u. Some ''site.test'')\<rparr>"

section \<open>Properties of the rate limiter\<close>

lemma limit_absent_diverges:
  "buckets w h = None \<Longrightarrow> cap < 1 \<Longrightarrow> limit fuel h rate cap w = None"
proof (induction fuel arbitrary: w)
  case 0
  then show ?case by simp
next
  case (Suc fuel)
  have r: "tokens (refill h rate cap w) = cap"
    using Suc.prems by (simp add: refill_def)
  have "buckets (sleep ms w) h = None" for ms
    using Suc.prems by (simp add: sleep_def)
  then show ?case
    using Suc r by (simp add: Let_def)
qed

lemma limit_post_bucket:
  "limit fuel h rate cap w = Some w' \<Longrightarrow>
   \<exists>b. buckets w' h = Some b \<and> 0 \<le> tokens b \<and> tokens b \<le> cap - 1"
proof (induction fuel arbitrary: w)
  case 0
  then show ?case by simp
next
  case (Suc fuel)
  show ?case
  proof (cases "tokens (refill h rate cap w) < 1")
    case True
    with Suc.prems show ?thesis
      by (auto simp: Let_def dest: Suc.IH)
  next
    case False
    have "tokens (refill h rate cap w) \<le> cap"
      by (simp add: refill_def Let_def)
    with False Suc.prems show ?thesis
      by (auto simp: Let_def)
  qed
qed

lemma limit_potential:
  "limit fuel h rate cap w = Some w' \<Longrightarrow>
   clock w \<le> clock w' \<and>
   1 \<le> tokens (refill h rate cap w) + (clock w' - clock w) / 1000 * rate"
proof (induction fuel arbitrary: w)
  case 0
  then show ?case by simp
next
  case (Suc fuel)
  let ?b = "refill h rate cap w"
  show ?case
  proof (cases "tokens ?b < 1")
    case False
    with Suc.prems have "clock w' = clock w" by (auto simp: Let_def)
    with False show ?thesis by simp
  next
    case True
    show ?thesis
    proof (cases "buckets w h")
      case None
      then have "tokens ?b = cap" by (simp add: refill_def)
      with True None have "limit (Suc fuel) h rate cap w = None"
        by (intro limit_absent_diverges) auto
      with Suc.prems show ?thesis by simp
    next
      case (Some b0)
      define ms where "ms = (1 - tokens ?b) / rate * 1000"
      define w2 where "w2 = sleep ms (w\<lparr>buckets := (buckets w)(h \<mapsto> ?b)\<rparr>)"
      have run: "limit fuel h rate cap w2 = Some w'"
        using Suc.prems True Some by (simp add: Let_def w2_def ms_def)
      have c2: "clock w2 = clock w + max ms 0" by (simp add: w2_def sleep_def)
      have b2: "buckets w2 h = Some ?b" by (simp add: w2_def sleep_def)
      have l2: "last_t ?b = clock w" by (simp add: refill_def Let_def)
      have r2: "tokens (refill h rate cap w2) \<le> tokens ?b + (clock w2 - clock w) / 1000 * rate"
        unfolding refill_def[of h rate cap w2] using b2 l2 by (simp add: Let_def)
      from Suc.IH[OF run] have ih1: "clock w2 \<le> clock w'"
        and ih2: "1 \<le> tokens (refill h rate cap w2) + (clock w' - clock w2) / 1000 * rate" by auto
      have "clock w \<le> clock w'" using ih1 c2 by simp
      moreover have "(clock w' - clock w) / 1000 * rate =
          (clock w' - clock w2) / 1000 * rate + (clock w2 - clock w) / 1000 * rate"
        by (simp add: algebra_simps diff_divide_distrib)
      then have "1 \<le> tokens ?b + (clock w' - clock w) / 1000 * rate"
        using ih2 r2 by linarith
      ultimately show ?thesis by simp
    qed
  qed
qed

lemma limit_wait_step:
  "tokens (refill h rate cap w) < 1 \<Longrightarrow> buckets w h = Some b0 \<Longrightarrow>
   limit (Suc n) h rate cap w =
   limit n h rate cap
     (sleep ((1 - tokens (refill h rate cap w)) / rate * 1000)
        (w\<lparr>buckets := (buckets w)(h \<mapsto> refill h rate cap w)\<rparr>))"
  by (simp add: Let_def)

lemma limit_returns:
  assumes "0 < rate" "1 \<le> cap"
  shows "\<exists>w'. limit (Suc (Suc n)) h rate cap w = Some w'"
proof (cases "tokens (refill h rate cap w) < 1")
  case False
  then show ?thesis by (simp add: Let_def)
next
  case True
  let ?b = "refill h rate cap w"
  obtain b0 where Some: "buckets w h = Some b0"
    using True assms by (cases "buckets w h") (auto simp: refill_def)
  define ms where "ms = (1 - tokens ?b) / rate * 1000"
  define w2 where "w2 = sleep ms (w\<lparr>buckets := (buckets w)(h \<mapsto> ?b)\<rparr>)"
  have ms: "0 < ms" using True assms by (simp add: ms_def)
  have c2: "clock w2 = clock w + ms" using ms by (simp add: w2_def sleep_def)
  have b2: "buckets w2 h = Some ?b" by (simp add: w2_def sleep_def)
  have l2: "last_t ?b = clock w" by (simp add: refill_def Let_def)
  have "tokens ?b + ms / 1000 * rate = 1" using assms by (simp add: ms_def field_simps)
  then have "tokens (refill h rate cap w2) = min cap 1"
    unfolding refill_def[of h rate cap w2] using b2 l2 c2 by (simp add: Let_def)
  then have "\<not> tokens (refill h rate cap w2) < 1" using assms by simp
  then have "\<exists>w'. limit (Suc n) h rate cap w2 = Some w'" by (simp add: Let_def)
  moreover have "limit (Suc (Suc n)) h rate cap w = limit (Suc n) h rate cap w2"
    unfolding w2_def ms_def using True Some by (rule limit_wait_step)
  ultimately show ?thesis by simp
qed

text \<open>
  C7. After every \<^verbatim>\<open>limit\<close> call that returns, from any state whatever (so after any
  sequence of earlier calls), the bucket of the host holds between 0 and \<open>burst\<close>
  tokens; and when the refill at the head of the call found less than one token, the
  call has not returned before \<open>(1 - tokens) / rps\<close> seconds have passed on the clock.
\<close>

theorem limit_bounds_and_wait:
  assumes "limit fuel h rate cap w = Some w'"
  shows "(\<exists>b. buckets w' h = Some b \<and> 0 \<le> tokens b \<and> tokens b \<le> cap) \<and>
         (tokens (refill h rate cap w) < 1 \<longrightarrow>
            0 < rate \<and> clock w + (1 - tokens (refill h rate cap w)) / rate * 1000 \<le> clock w')"
proof -
  from limit_post_bucket[OF assms] have A: "\<exists>b. buckets w' h = Some b \<and> 0 \<le> tokens b \<and> tokens b \<le> cap"
    by fastforce
  let ?t = "tokens (refill h rate cap w)"
  from limit_potential[OF assms] have c: "clock w \<le> clock w'"
    and p: "1 \<le> ?t + (clock w' - clock w) / 1000 * rate" by auto
  have B: "0 < rate \<and> clock w + (1 - ?t) / rate * 1000 \<le> clock w'" if lt: "?t < 1"
  proof -
    have pos: "0 < (clock w' - clock w) / 1000 * rate" using p lt by linarith
    have d: "0 \<le> (clock w' - clock w) / 1000" using c by simp
    have rp: "0 < rate"
    proof (rule ccontr)
      assume "\<not> 0 < rate"
      then have "rate \<le> 0" by simp
      with d have "(clock w' - clock w) / 1000 * rate \<le> 0" by (rule mult_nonneg_nonpos)
      with pos show False by simp
    qed
    have "(1 - ?t) \<le> (clock w' - clock w) / 1000 * rate" using p by linarith
    then have "(1 - ?t) / rate \<le> (clock w' - clock w) / 1000" using rp by (simp add: field_simps)
    then show ?thesis using rp by (simp add: field_simps)
  qed
  from A B show ?thesis by blast
qed

theorem limit_bounds_and_wait_witness:
  "limit 2 ''site.test'' 1 1 w_drained = Some w_refilled \<and>
   (\<exists>b. buckets w_refilled ''site.test'' = Some b \<and> 0 \<le> tokens b \<and> tokens b \<le> 1) \<and>
   tokens (refill ''site.test'' 1 1 w_drained) < 1 \<and>
   clock w_drained + 1000 \<le> clock w_refilled"
proof -
  have run: "limit 2 ''site.test'' 1 1 w_drained = Some w_refilled"
    by (simp add: w_drained_def w_refilled_def refill_def sleep_def Let_def numeral_2_eq_2)
  have low: "tokens (refill ''site.test'' 1 1 w_drained) = 0"
    by (simp add: w_drained_def refill_def Let_def)
  show ?thesis
    using limit_bounds_and_wait [OF run] run low by simp
qed

section \<open>Properties of the cookie header\<close>

lemma map_of_foldl_update:
  "map_of (foldl (\<lambda>m (k, v). AList.update k v m) m ps) = map_of m ++ map_of (rev ps)"
proof (induction ps arbitrary: m)
  case Nil
  then show ?case by simp
next
  case (Cons p ps)
  obtain k v where p: "p = (k, v)" by (cases p)
  have "map_of (foldl (\<lambda>m (k, v). AList.update k v m) m (p # ps)) =
        map_of (AList.update k v m) ++ map_of (rev ps)"
    using Cons.IH[of "AList.update k v m"] p by simp
  also have "\<dots> = (map_of m)(k \<mapsto> v) ++ map_of (rev ps)"
    by (simp add: update_conv')
  also have "\<dots> = map_of m ++ map_of (rev (p # ps))"
    by (simp add: p)
  finally show ?case .
qed

lemma remdups_later_copy:
  "x \<in> set ys \<Longrightarrow> remdups (xs @ x # ys) = remdups (xs @ ys)"
  by (induction xs) auto

lemma first_seen_later_copy:
  "k \<in> set A \<Longrightarrow> first_seen (A @ k # B) = first_seen (A @ B)"
  by (simp add: first_seen_def remdups_later_copy)

lemma distinct_first_seen: "distinct (first_seen xs)"
  by (simp add: first_seen_def)

lemma set_first_seen: "set (first_seen xs) = set xs"
  by (simp add: first_seen_def)

lemma keys_foldl_update:
  "distinct (map fst m) \<Longrightarrow>
   map fst (foldl (\<lambda>m (k, v). AList.update k v m) m ps) = first_seen (map fst m @ map fst ps) \<and>
   distinct (map fst (foldl (\<lambda>m (k, v). AList.update k v m) m ps))"
proof (induction ps arbitrary: m)
  case Nil
  then show ?case by (simp add: first_seen_def distinct_remdups_id)
next
  case (Cons p ps)
  obtain k v where p: "p = (k, v)" by (cases p)
  have d: "distinct (map fst (AList.update k v m))"
    using Cons.prems by (rule distinct_update)
  have keys: "map fst (AList.update k v m) @ map fst ps =
      (if k \<in> set (map fst m) then map fst m @ map fst ps else map fst m @ k # map fst ps)"
    by (simp add: update_keys)
  have "first_seen (map fst (AList.update k v m) @ map fst ps) = first_seen (map fst m @ k # map fst ps)"
    unfolding keys by (simp add: first_seen_later_copy)
  with Cons.IH[OF d] show ?case by (simp add: p distinct_first_seen)
qed

lemma alist_of_keys:
  "distinct (map fst al) \<Longrightarrow> al = map (\<lambda>n. (n, the (map_of al n))) (map fst al)"
proof (induction al)
  case Nil
  then show ?case by simp
next
  case (Cons p al)
  obtain k v where p: "p = (k, v)" by (cases p)
  from Cons.prems p have k: "k \<notin> fst ` set al" and d: "distinct (map fst al)" by auto
  have "map (\<lambda>n. (n, the (map_of (p # al) n))) (map fst al) =
        map (\<lambda>n. (n, the (map_of al n))) (map fst al)"
    using k p by (intro map_cong) auto
  with Cons.IH[OF d] show ?case by (simp add: p)
qed

lemma foldl_set_part:
  "foldl (\<lambda>m part. set_part part m) m parts =
   foldl (\<lambda>m (k, v). AList.update k v m) m
     (concat (map (\<lambda>part. case split_on (of_char CHR ''='') part of
                            [] \<Rightarrow> []
                          | name # rest \<Rightarrow> if name = [] then [] else [(name, join (js ''='') rest)]) parts))"
  by (induction parts arbitrary: m) (auto simp: set_part_def split: list.splits)

lemma append_cookies_pairs:
  "append_cookies s m = foldl (\<lambda>m (k, v). AList.update k v m) m (cookie_pairs s)"
  by (simp add: append_cookies_def cookie_pairs_def foldl_set_part)

lemma cookie_pairs_Nil: "cookie_pairs [] = []"
  by (simp add: cookie_pairs_def cookie_parts_def trim_def)

lemma merged_cookies_foldl:
  "merged_cookies stored override =
   foldl (\<lambda>m (k, v). AList.update k v m) [] (stored @ override_pairs override)"
  by (auto simp: merged_cookies_def override_pairs_def Let_def append_cookies_pairs cookie_pairs_Nil
        split: option.splits)

lemma merged_cookies_spec:
  "merged_cookies stored override =
   map (\<lambda>n. (n, header_value stored override n)) (header_names stored override)"
proof -
  define L where "L = foldl (\<lambda>m (k, v). AList.update k v m) [] (stored @ override_pairs override)"
  have keys: "map fst L = header_names stored override" and dist: "distinct (map fst L)"
    using keys_foldl_update[of "[]" "stored @ override_pairs override"]
    unfolding L_def by (simp_all add: header_names_def distinct_first_seen)
  have vals: "map_of L = map_of (rev stored) ++ map_of (rev (override_pairs override))"
    unfolding L_def by (simp add: map_of_foldl_update)
  have "the (map_of L n) = header_value stored override n" if "n \<in> set (map fst L)" for n
  proof -
    from that have "map_of L n \<noteq> None" by (simp add: map_of_eq_None_iff)
    then show ?thesis
      unfolding vals header_value_def by (auto simp: map_add_def split: option.splits)
  qed
  then have eq: "map (\<lambda>n. (n, the (map_of L n))) (map fst L) =
             map (\<lambda>n. (n, header_value stored override n)) (map fst L)"
    by (intro map_cong) auto
  have "L = map (\<lambda>n. (n, the (map_of L n))) (map fst L)"
    by (rule alist_of_keys[OF dist])
  also note eq
  finally have "L = map (\<lambda>n. (n, header_value stored override n)) (header_names stored override)"
    unfolding keys .
  then show ?thesis
    unfolding L_def by (simp only: merged_cookies_foldl)
qed

lemma header_names_empty:
  "header_names stored override = [] \<longleftrightarrow> stored = [] \<and> override_pairs override = []"
proof -
  have "set (header_names stored override) = fst ` set stored \<union> fst ` set (override_pairs override)"
    by (simp add: header_names_def set_first_seen)
  then have "set (header_names stored override) = {} \<longleftrightarrow>
             set stored = {} \<and> set (override_pairs override) = {}"
    by simp
  then show ?thesis by simp
qed


lemma split_on_nonempty: "split_on c s \<noteq> []"
  by (induction s) (auto split: list.splits)

lemma split_on_notin: "c \<notin> set s \<Longrightarrow> split_on c s = [s]"
  by (induction s) auto

lemma split_on_append: "c \<notin> set a \<Longrightarrow> split_on c (a @ c # b) = a # split_on c b"
  by (induction a) auto

lemma join_Cons_Cons: "join sep ((x # y) # ys) = x # join sep (y # ys)"
  by (cases ys) auto

lemma join_split_on: "join [c] (split_on c s) = s"
proof (induction s)
  case Nil
  then show ?case by simp
next
  case (Cons x xs)
  obtain y ys where sp: "split_on c xs = y # ys"
    using split_on_nonempty[of c xs] by (cases "split_on c xs") auto
  show ?case
  proof (cases "x = c")
    case True
    with Cons sp show ?thesis by simp
  next
    case False
    with Cons sp show ?thesis by (simp add: join_Cons_Cons)
  qed
qed

lemma trim_clean: "s \<noteq> [] \<Longrightarrow> \<not> is_space (hd s) \<Longrightarrow> \<not> is_space (last s) \<Longrightarrow> trim s = s"
proof -
  assume a: "s \<noteq> []" "\<not> is_space (hd s)" "\<not> is_space (last s)"
  then have 1: "dropWhile is_space s = s" by (cases s) auto
  from a have "rev s \<noteq> []" "\<not> is_space (hd (rev s))" by (simp_all add: hd_rev)
  then have 2: "dropWhile is_space (rev s) = rev s" by (cases "rev s") auto
  show ?thesis by (simp add: trim_def 1 2)
qed

lemma trim_space_Cons: "is_space x \<Longrightarrow> trim (x # s) = trim s"
  by (simp add: trim_def)

lemma map_trim_split_space:
  "is_space x \<Longrightarrow> x \<noteq> c \<Longrightarrow> map trim (split_on c (x # s)) = map trim (split_on c s)"
  using split_on_nonempty[of c s] by (cases "split_on c s") (auto simp: trim_space_Cons)

lemma pair_text_clean:
  assumes "clean_pair p"
  shows "pair_text p \<noteq> [] \<and> trim (pair_text p) = pair_text p \<and>
         of_char CHR '';'' \<notin> set (pair_text p)"
proof -
  obtain k v where p: "p = (k, v)" by (cases p)
  from assms p have k: "k \<noteq> []" "\<not> is_space (hd k)" "v \<noteq> [] \<longrightarrow> \<not> is_space (last v)"
    "of_char CHR '';'' \<notin> set k" "of_char CHR '';'' \<notin> set v"
    by (simp_all add: clean_pair_def)
  have t: "pair_text p = k @ of_char CHR ''='' # v" by (simp add: p pair_text_def js_def)
  have ne: "pair_text p \<noteq> []" using t by simp
  have h: "\<not> is_space (hd (pair_text p))" using k(1,2) t by simp
  have l: "\<not> is_space (last (pair_text p))"
    using k(3) unfolding t by (cases "v = []") (simp_all add: is_space_def)
  have s: "of_char CHR '';'' \<notin> set (pair_text p)"
    using k(4,5) unfolding t by simp
  from ne trim_clean[OF ne h l] s show ?thesis by simp
qed

lemma cookie_parts_join:
  "list_all clean_pair ps \<Longrightarrow> cookie_parts (join (js ''; '') (map pair_text ps)) = map pair_text ps"
proof (induction ps rule: induct_list012)
  case 1
  then show ?case by (simp add: cookie_parts_def trim_def)
next
  case (2 p)
  then have "clean_pair p" by simp
  from pair_text_clean[OF this] show ?case
    by (simp add: cookie_parts_def split_on_notin)
next
  case (3 p q ps)
  then have cp: "clean_pair p" and rest: "list_all clean_pair (q # ps)" by simp_all
  let ?J = "join (js ''; '') (map pair_text (q # ps))"
  have j: "join (js ''; '') (map pair_text (p # q # ps)) =
           pair_text p @ of_char CHR '';'' # of_char CHR '' '' # ?J"
    by (simp add: js_def)
  have sp: "split_on (of_char CHR '';'') (pair_text p @ of_char CHR '';'' # of_char CHR '' '' # ?J) =
            pair_text p # split_on (of_char CHR '';'') (of_char CHR '' '' # ?J)"
    using pair_text_clean[OF cp] by (intro split_on_append) simp
  have tr: "map trim (split_on (of_char CHR '';'') (of_char CHR '' '' # ?J)) =
            map trim (split_on (of_char CHR '';'') ?J)"
    by (intro map_trim_split_space) (simp_all add: is_space_def)
  have m: "map trim (split_on (of_char CHR '';'') (pair_text p @ of_char CHR '';'' # of_char CHR '' '' # ?J)) =
           trim (pair_text p) # map trim (split_on (of_char CHR '';'') (of_char CHR '' '' # ?J))"
    unfolding sp by (rule list.map(2))
  from pair_text_clean[OF cp] have tp: "trim (pair_text p) = pair_text p" and ne: "pair_text p \<noteq> []"
    by simp_all
  have "cookie_parts (join (js ''; '') (map pair_text (p # q # ps))) =
        filter (\<lambda>part. part \<noteq> []) (pair_text p # map trim (split_on (of_char CHR '';'') ?J))"
    unfolding j cookie_parts_def m tr tp ..
  also have "\<dots> = pair_text p # cookie_parts ?J"
    unfolding cookie_parts_def using ne by (simp only: filter.simps not_False_eq_True if_True)
  finally have "cookie_parts (join (js ''; '') (map pair_text (p # q # ps))) =
        pair_text p # cookie_parts ?J" .
  with "3.IH"(2)[OF rest] show ?case by simp
qed

lemma pair_of_text:
  assumes "clean_pair p"
  shows "(case split_on (of_char CHR ''='') (pair_text p) of
            [] \<Rightarrow> []
          | name # rest \<Rightarrow> if name = [] then [] else [(name, join (js ''='') rest)]) = [p]"
proof -
  obtain k v where p: "p = (k, v)" by (cases p)
  from assms p have k: "k \<noteq> []" "of_char CHR ''='' \<notin> set k" by (simp_all add: clean_pair_def)
  have t: "pair_text p = k @ of_char CHR ''='' # v" by (simp add: p pair_text_def js_def)
  have e: "js ''='' = [of_char CHR ''='']" by (simp add: js_def)
  show ?thesis
    unfolding t split_on_append[OF k(2)] using k(1) by (simp add: e join_split_on p)
qed

lemma cookie_pairs_join:
  assumes "list_all clean_pair ps"
  shows "cookie_pairs (join (js ''; '') (map pair_text ps)) = ps"
proof -
  define f where "f = (\<lambda>part. case split_on (of_char CHR ''='') part of
                            [] \<Rightarrow> []
                          | name # rest \<Rightarrow> if name = [] then [] else [(name, join (js ''='') rest)])"
  have f: "f (pair_text p) = [p]" if "clean_pair p" for p
    unfolding f_def by (rule pair_of_text[OF that])
  have c: "concat (map f (map pair_text qs)) = qs" if "list_all clean_pair qs" for qs
    using that by (induction qs) (simp_all add: f)
  have "cookie_pairs s = concat (map f (cookie_parts s))" for s
    unfolding cookie_pairs_def f_def ..
  then show ?thesis
    using c[OF assms] by (simp only: cookie_parts_join[OF assms])
qed

lemma buildCookieHeader_merged:
  "buildCookieHeader w h override =
     (if merged_cookies (stored_cookies w h) override = [] then None
      else Some (join (js ''; '') (map (\<lambda>(key, val). key @ js ''='' @ val)
                                 (merged_cookies (stored_cookies w h) override))))"
  by (auto simp: buildCookieHeader_def Let_def merged_cookies_def)

text \<open>
  C8. \<^verbatim>\<open>buildCookieHeader\<close> is a function of the cookies stored for the host and of the
  override alone. Its result is the header of the specification: \<^verbatim>\<open>undefined\<close> when
  there is no name at all, that is when nothing is stored and the override contributes no
  pair, and otherwise the \<open>name=value\<close> texts joined with \<open>"; "\<close>, one for every name
  that is stored or set by the override, each name once, in the order of first appearance.
  The value shown for a name the override sets is the override's value, whatever is
  stored under that name. And a raw override \<open>"k=v; k2=v2"\<close> written from clean pairs
  contributes exactly these pairs.
\<close>

theorem buildCookieHeader_override_wins:
  "(cookieJar w h = cookieJar w' h \<longrightarrow>
      buildCookieHeader w h override = buildCookieHeader w' h override) \<and>
   buildCookieHeader w h override =
     (if header_names (stored_cookies w h) override = [] then None
      else Some (join (js ''; '')
                   (map (\<lambda>n. n @ js ''='' @ header_value (stored_cookies w h) override n)
                        (header_names (stored_cookies w h) override)))) \<and>
   (buildCookieHeader w h override = None \<longleftrightarrow>
      stored_cookies w h = [] \<and> override_pairs override = []) \<and>
   distinct (header_names (stored_cookies w h) override) \<and>
   set (header_names (stored_cookies w h) override) =
     fst ` set (stored_cookies w h) \<union> fst ` set (override_pairs override) \<and>
   (\<forall>n v. map_of (rev (override_pairs override)) n = Some v \<longrightarrow>
      header_value (stored_cookies w h) override n = v) \<and>
   (\<forall>ps. list_all clean_pair ps \<longrightarrow>
      override_pairs (Some (join (js ''; '') (map pair_text ps))) = ps)"
proof -
  let ?S = "stored_cookies w h"
  have det: "buildCookieHeader w h override = buildCookieHeader w' h override"
    if "cookieJar w h = cookieJar w' h"
    using that by (simp add: buildCookieHeader_def stored_cookies_def)
  have hdr: "buildCookieHeader w h override =
     (if header_names ?S override = [] then None
      else Some (join (js ''; '')
                   (map (\<lambda>n. n @ js ''='' @ header_value ?S override n) (header_names ?S override))))"
    unfolding buildCookieHeader_merged merged_cookies_spec by (simp add: comp_def)
  have none: "buildCookieHeader w h override = None \<longleftrightarrow> ?S = [] \<and> override_pairs override = []"
    unfolding hdr using header_names_empty[of ?S override] by simp
  have dist: "distinct (header_names ?S override)"
    by (simp add: header_names_def distinct_first_seen)
  have names: "set (header_names ?S override) = fst ` set ?S \<union> fst ` set (override_pairs override)"
    by (simp add: header_names_def set_first_seen)
  have wins: "header_value ?S override n = v"
    if "map_of (rev (override_pairs override)) n = Some v" for n v
    using that by (simp add: header_value_def)
  have rt: "override_pairs (Some (join (js ''; '') (map pair_text ps))) = ps"
    if "list_all clean_pair ps" for ps
    using cookie_pairs_join[OF that] by (simp add: override_pairs_def)
  from det hdr none dist names wins rt show ?thesis by blast
qed

theorem buildCookieHeader_override_wins_witness:
  "buildCookieHeader w_cookies ''site.test'' (Some (js ''b=3; c=4'')) = Some (js ''a=1; b=3; c=4'') \<and>
   header_names (stored_cookies w_cookies ''site.test'') (Some (js ''b=3; c=4'')) =
     [js ''a'', js ''b'', js ''c''] \<and>
   map_of (stored_cookies w_cookies ''site.test'') (js ''b'') = Some (js ''2'') \<and>
   map_of (rev (override_pairs (Some (js ''b=3; c=4'')))) (js ''b'') = Some (js ''3'') \<and>
   header_value (stored_cookies w_cookies ''site.test'') (Some (js ''b=3; c=4'')) (js ''b'') = js ''3'' \<and>
   list_all clean_pair [(js ''b'', js ''3''), (js ''c'', js ''4'')] \<and>
   override_pairs (Some (js ''b=3; c=4'')) = [(js ''b'', js ''3''), (js ''c'', js ''4'')]"
proof -
  let ?S = "stored_cookies w_cookies ''site.test''" and ?o = "Some (js ''b=3; c=4'')"
  note t = buildCookieHeader_override_wins [of w_cookies "''site.test''" w_cookies ?o]
  have names: "header_names ?S ?o = [js ''a'', js ''b'', js ''c'']" by code_simp
  have st: "map_of ?S (js ''b'') = Some (js ''2'')" by code_simp
  have ov: "map_of (rev (override_pairs ?o)) (js ''b'') = Some (js ''3'')" by code_simp
  have cl: "list_all clean_pair [(js ''b'', js ''3''), (js ''c'', js ''4'')]" by code_simp
  have tx: "join (js ''; '') (map pair_text [(js ''b'', js ''3''), (js ''c'', js ''4'')]) = js ''b=3; c=4''"
    by code_simp
  have va: "header_value ?S ?o (js ''a'') = js ''1''" and vc: "header_value ?S ?o (js ''c'') = js ''4''"
    by code_simp+
  from t ov have vb: "header_value ?S ?o (js ''b'') = js ''3''" by blast
  from t cl have "override_pairs (Some (join (js ''; '')
      (map pair_text [(js ''b'', js ''3''), (js ''c'', js ''4'')]))) = [(js ''b'', js ''3''), (js ''c'', js ''4'')]"
    by blast
  then have pairs: "override_pairs ?o = [(js ''b'', js ''3''), (js ''c'', js ''4'')]"
    unfolding tx .
  have jn: "js ''a'' @ js ''='' @ js ''1'' @ js ''; '' @ js ''b'' @ js ''='' @ js ''3'' @ js ''; '' @
      js ''c'' @ js ''='' @ js ''4'' = js ''a=1; b=3; c=4''"
    by (simp add: js_def)
  from t have "buildCookieHeader w_cookies ''site.test'' ?o =
     (if header_names ?S ?o = [] then None
      else Some (join (js ''; '') (map (\<lambda>n. n @ js ''='' @ header_value ?S ?o n) (header_names ?S ?o))))"
    by blast
  then have hd: "buildCookieHeader w_cookies ''site.test'' ?o = Some (js ''a=1; b=3; c=4'')"
    unfolding names by (simp add: va vb vc jn)
  from hd names st ov vb cl pairs show ?thesis by blast
qed

section \<open>Properties of getFinalUrls\<close>










section \<open>Properties of the cache middleware\<close>

lemma find_filter_other:
  "k' \<noteq> k \<Longrightarrow> find (\<lambda>x. entry_key x = k') (filter (\<lambda>y. entry_key y \<noteq> k) c) = find (\<lambda>x. entry_key x = k') c"
  by (induction c) auto

lemma find_filter_same:
  "find (\<lambda>x. entry_key x = k) (filter (\<lambda>y. entry_key y \<noteq> k) c) = None"
  by (induction c) auto

lemma find_key: "find (\<lambda>x. entry_key x = k) c = Some x \<Longrightarrow> entry_key x = k"
  by (induction c) (auto split: if_splits)

lemma find_take: "find P (take n xs) = Some x \<Longrightarrow> find P xs = Some x"
proof (induction xs arbitrary: n)
  case Nil
  then show ?case by simp
next
  case (Cons y ys)
  then show ?case by (cases n) (auto split: if_splits)
qed

lemma live_value_find:
  "live_value t k c =
     (case find (\<lambda>x. entry_key x = k) c of
        None \<Rightarrow> None
      | Some x \<Rightarrow> if t < expiresAt x then Some (entry_value x) else None)"
  by (simp add: live_value_def cache_get_def split: option.splits)

lemma live_value_after_get:
  "live_value t k' (snd (cache_get t k c)) = live_value t k' c"
proof (cases "find (\<lambda>x. entry_key x = k) c")
  case None
  then show ?thesis by (simp add: cache_get_def)
next
  case (Some x)
  then have kx: "entry_key x = k" by (rule find_key)
  have es: "snd (cache_get t k c) =
      (if t < expiresAt x then x # filter (\<lambda>y. entry_key y \<noteq> k) c
       else filter (\<lambda>y. entry_key y \<noteq> k) c)"
    using Some by (simp add: cache_get_def)
  show ?thesis
  proof (cases "k' = k")
    case True
    with Some kx show ?thesis
      unfolding es live_value_find by (simp add: find_filter_same)
  next
    case False
    with Some kx show ?thesis
      unfolding es live_value_find by (simp add: find_filter_other)
  qed
qed

lemma live_value_after_set:
  assumes "live_value t k' (cache_set mx t k v ttl c) = Some v'"
  shows "(k' = k \<and> v' = v) \<or> live_value t k' c = Some v'"
proof (cases "0 < ttl")
  case False
  with assms show ?thesis by (simp add: cache_set_def)
next
  case True
  let ?new = "\<lparr>entry_key = k, entry_value = v, expiresAt = t + ttl\<rparr>"
  let ?l = "?new # filter (\<lambda>y. entry_key y \<noteq> k) c"
  from assms True obtain x where x: "find (\<lambda>x. entry_key x = k') (take mx ?l) = Some x"
    and lv: "t < expiresAt x" "v' = entry_value x"
    by (auto simp: live_value_find cache_set_def split: option.splits if_splits)
  from x have f: "find (\<lambda>x. entry_key x = k') ?l = Some x" by (rule find_take)
  show ?thesis
  proof (cases "k' = k")
    case True
    with f have "x = ?new" by simp
    with lv True show ?thesis by simp
  next
    case False
    with f have "find (\<lambda>x. entry_key x = k') c = Some x"
      by (simp add: find_filter_other)
    with lv have "live_value t k' c = Some v'"
      by (simp add: live_value_find)
    then show ?thesis by simp
  qed
qed

lemma on_miss_stores:
  assumes "on_miss mx pj H newTTL rt c k st = (rep, st')"
    and "live_value (now st') k' (entries st') = Some v"
  shows "now st' = now st \<and>
         (live_value (now st) k' (entries st) = Some v \<or>
          (k' = k \<and>
           (\<exists>res. rep = Downstream res \<and> http_status res < 399 \<and>
              (case rt of
                 Json \<Rightarrow> pj (http_body res) = Some v \<and> typeof_object v \<and> truthy v \<and>
                          (\<exists>x. prop_ok v = Some x \<and> truthy x)
               | Text \<Rightarrow> v = JStr (http_body res)))))"
  using assms
  by (auto simp: on_miss_def Let_def split: if_splits responseType.splits option.splits
           dest!: live_value_after_set)

text \<open>
  C3 (amended). The middleware stores an entry only on a miss, under the key of the
  request, and only when the response of the handler has a status below 399. In JSON mode
  the body must moreover parse to an object whose \<open>ok\<close> field is truthy, and that object
  is what is stored; in text mode the body is stored as it is, with no test of any
  \<open>ok\<close> flag. Whatever else is live in the cache afterwards was live before.
\<close>

theorem serverCache_stores_only:
  assumes "serverCache mx pj H ttl rt c st = (rep, st')"
    and "live_value (now st') k (entries st') = Some v"
  shows "live_value (now st) k (entries st) = Some v \<or>
         (k = pathname c @ search c \<and>
          (\<exists>res. rep = Downstream res \<and> http_status res < 399 \<and>
             (case rt of
                Json \<Rightarrow> pj (http_body res) = Some v \<and> typeof_object v \<and> truthy v \<and>
                         (\<exists>x. prop_ok v = Some x \<and> truthy x)
              | Text \<Rightarrow> v = JStr (http_body res))))"
proof -
  let ?k = "pathname c @ search c"
  obtain cd es where g: "cache_get (now st) ?k (entries st) = (cd, es)"
    by (cases "cache_get (now st) ?k (entries st)")
  have es: "live_value (now st) k es = live_value (now st) k (entries st)"
    using live_value_after_get[of "now st" k ?k "entries st"] g by simp
  let ?st1 = "st\<lparr>entries := es\<rparr>"
  let ?ttl = "case ttl of Some t \<Rightarrow> if t \<noteq> 0 then 1000 * 60 * t else defaultTTL | None \<Rightarrow> defaultTTL"
  consider (hit) "st' = ?st1" | (miss) "on_miss mx pj H ?ttl rt c ?k ?st1 = (rep, st')"
    using assms(1) g
    by (auto simp: serverCache_def Let_def split: option.splits if_splits json.splits)
  then show ?thesis
  proof cases
    case hit
    with assms(2) es show ?thesis by simp
  next
    case miss
    from on_miss_stores[OF miss assms(2)] es show ?thesis by auto
  qed
qed

text \<open>
  What does hold for a hit: a live entry with a truthy value (every stored JSON payload,
  every non-empty text) is returned and the handler is not called.
\<close>

lemma serverCache_hit:
  assumes "live_value (now st) (pathname c @ search c) (entries st) = Some v" and "truthy v"
    and "serverCache mx pj H ttl rt c st = (rep, st')"
  shows "calls st' = calls st \<and>
         rep = (if typeof_object v then Json_reply v
                else case v of JStr s \<Rightarrow> Text_reply s | _ \<Rightarrow> String_reply v)"
  using assms
  by (auto simp: serverCache_def live_value_def Let_def split: prod.splits option.splits json.splits)

theorem serverCache_stores_only_witness:
  "serverCache 10 parse_payload H_payload (Some 1) Json ctx_a st_empty =
     (Downstream \<lparr>http_status = 200, http_body = ''{payload}''\<rparr>,
      \<lparr>entries = [\<lparr>entry_key = ''/a?page=1'', entry_value = payload_ok, expiresAt = 60000\<rparr>],
         now = 0, calls = 1\<rparr>) \<and>
   live_value 0 ''/a?page=1''
     [\<lparr>entry_key = ''/a?page=1'', entry_value = payload_ok, expiresAt = 60000\<rparr>] = Some payload_ok \<and>
   live_value 0 ''/a?page=1'' (entries st_empty) = None \<and>
   parse_payload ''{payload}'' = Some payload_ok \<and> prop_ok payload_ok = Some (JBool True)"
proof -
  let ?st = "\<lparr>entries = [\<lparr>entry_key = ''/a?page=1'', entry_value = payload_ok, expiresAt = 60000\<rparr>],
               now = 0, calls = 1\<rparr>"
  have run: "serverCache 10 parse_payload H_payload (Some 1) Json ctx_a st_empty =
     (Downstream \<lparr>http_status = 200, http_body = ''{payload}''\<rparr>, ?st)"
    by (simp add: serverCache_def on_miss_def cache_get_def cache_set_def st_empty_def ctx_a_def
        H_payload_def parse_payload_def payload_ok_def Let_def)
  have live: "live_value (now ?st) ''/a?page=1'' (entries ?st) = Some payload_ok"
    by (simp add: live_value_def cache_get_def)
  have before: "live_value 0 ''/a?page=1'' (entries st_empty) = None"
    by (simp add: live_value_def cache_get_def st_empty_def)
  show ?thesis
    using serverCache_stores_only [OF run live] run live before
    by (simp add: parse_payload_def payload_ok_def)
qed

text \<open>
  C3 as stated fails: in text mode the body \<open>hello\<close>, which has no \<open>ok\<close> flag at all, is
  stored; and in JSON mode a body whose \<open>ok\<close> is 1, not \<open>true\<close>, is stored.
\<close>

theorem serverCache_ok_flag_counterexample:
  "live_value 0 ''/a?page=1'' (entries (snd (serverCache 10 no_json H_hello None Text ctx_a st_empty)))
     = Some (JStr ''hello'') \<and>
   prop_ok (JStr ''hello'') = None \<and>
   live_value 0 ''/a?page=1'' (entries (snd (serverCache 10 parse_one H_one None Json ctx_a st_empty)))
     = Some payload_one \<and>
   prop_ok payload_one = Some (JNum 1)"
  by (simp add: serverCache_def on_miss_def cache_get_def cache_set_def live_value_def st_empty_def
      ctx_a_def H_hello_def no_json_def H_one_def parse_one_def payload_one_def defaultTTL_def Let_def)

text \<open>
  C5 at the failing input. In text mode a handler answers 200 with an empty body. The
  first request stores the empty string, and the entry is live; the second, identical
  request finds it, takes the empty string for a miss, and calls the handler again. With
  the body \<open>hello\<close> the second request is served from the cache.
\<close>

theorem serverCache_blank_entry_refetched:
  "live_value (now st_blank) ''/a?page=1'' (entries st_blank) = Some (JStr []) \<and>
   calls st_blank = 1 \<and>
   calls (snd (serverCache 10 no_json H_blank None Text ctx_a st_blank)) = 2 \<and>
   calls (snd (serverCache 10 no_json H_hello None Text ctx_a
                 (snd (serverCache 10 no_json H_hello None Text ctx_a st_empty)))) = 1"
  by (simp add: st_blank_def serverCache_def on_miss_def cache_get_def cache_set_def live_value_def
      st_empty_def ctx_a_def H_blank_def H_hello_def no_json_def defaultTTL_def Let_def)

section \<open>Properties of the fetcher\<close>

lemma limit_frame:
  "limit fuel h rate cap w = Some w' \<Longrightarrow>
   metrics w' = metrics w \<and> sent w' = sent w \<and> cookieJar w' = cookieJar w"
proof (induction fuel arbitrary: w)
  case 0
  then show ?case by simp
next
  case (Suc fuel)
  show ?case
  proof (cases "tokens (refill h rate cap w) < 1")
    case True
    from Suc.prems True obtain w1 ms where run: "limit fuel h rate cap (sleep ms w1) = Some w'"
      and w1: "metrics w1 = metrics w" "sent w1 = sent w" "cookieJar w1 = cookieJar w"
      by (auto simp: Let_def split: option.splits)
    from Suc.IH[OF run] w1 show ?thesis by (simp add: sleep_def)
  next
    case False
    with Suc.prems show ?thesis by (auto simp: Let_def)
  qed
qed

lemma limit_opts_frame:
  assumes "limit_opts fuel h r b w = Some w'"
  shows "metrics w' = metrics w \<and> sent w' = sent w \<and> cookieJar w' = cookieJar w \<and> clock w \<le> clock w'"
  using assms limit_frame limit_potential unfolding limit_opts_def by blast

lemma limit_opts_returns:
  assumes "limiter_ok opts" "2 \<le> fuel"
  shows "\<exists>w'. limit_opts fuel h (rps opts) (burst opts) w = Some w'"
proof -
  from assms(2) obtain n where n: "fuel = Suc (Suc n)"
    by (metis add_2_eq_Suc le_Suc_ex)
  show ?thesis
    unfolding limit_opts_def n using assms(1) by (intro limit_returns) (auto simp: limiter_ok_def)
qed

lemma do_fetch_frame:
  assumes "do_fetch e opts h n w = (r, w2)"
  shows "metrics w2 = metrics w \<and> cookieJar w2 = cookieJar w \<and> buckets w2 = buckets w \<and>
         sent w2 = sent w @ [\<lparr>req_attempt = n, req_cookie = buildCookieHeader w h (cookies opts),
                               req_started = clock w,
                               req_answer = (case r of Inr x \<Rightarrow> Some (status x) | Inl err \<Rightarrow> None)\<rparr>] \<and>
         clock w \<le> clock w2"
  using assms
  by (auto simp: do_fetch_def Let_def split: option.splits if_splits prod.splits)

lemma do_fetch_quiet:
  assumes "quiet e opts"
  shows "fst (do_fetch e opts h n w) = result (upstream e n)"
proof -
  from assms have s: "signal opts = None" and t: "max (took (upstream e n)) 0 < timeout_ms opts"
    by (auto simp: quiet_def)
  from t have "\<not> max (timeout_ms opts) 0 \<le> max (took (upstream e n)) 0" by auto
  with s show ?thesis by (simp add: do_fetch_def Let_def)
qed


lemma recordScrapeFailure_frame:
  "clock (recordScrapeFailure k st msg u w) = clock w \<and>
   sent (recordScrapeFailure k st msg u w) = sent w \<and>
   cookieJar (recordScrapeFailure k st msg u w) = cookieJar w \<and>
   buckets (recordScrapeFailure k st msg u w) = buckets w"
  by (simp add: recordScrapeFailure_def getOrCreate_def Let_def split: option.splits)

lemma recordScrapeFailure_failures:
  "failures (recordScrapeFailure k st msg u w) k = failures w k + 1"
  by (simp add: recordScrapeFailure_def getOrCreate_def failures_def Let_def split: option.splits)

lemma recordScrapeFailure_last_success:
  "last_success (recordScrapeFailure k st msg u w) k' = last_success w k'"
  by (simp add: recordScrapeFailure_def getOrCreate_def last_success_def Let_def split: option.splits)

lemma sleep_frame:
  "metrics (sleep ms w) = metrics w \<and> sent (sleep ms w) = sent w \<and>
   cookieJar (sleep ms w) = cookieJar w \<and> clock w \<le> clock (sleep ms w)"
  by (simp add: sleep_def)

lemma storeCookies_frame:
  "metrics (storeCookies h r w) = metrics w \<and> sent (storeCookies h r w) = sent w \<and>
   clock (storeCookies h r w) = clock w"
  by (simp add: storeCookies_def Let_def)

lemma failures_sleep: "failures (sleep ms w) k = failures w k"
  by (simp add: failures_def sleep_def)

text \<open>A response that is not ok, while the budget lasts: the loop goes on.\<close>

lemma on_response_retry:
  assumes "\<not> ok r" "int a \<le> max_retries opts"
  shows "\<exists>w'. on_response e opts h k a r w = Continue w' \<and> sent w' = sent w \<and>
          failures w' k = failures w k + (if status r \<in> RETRY_STATUS then 0 else 1)"
proof (cases "status r \<in> RETRY_STATUS")
  case True
  with assms show ?thesis
    by (simp add: on_response_def sleep_frame failures_sleep)
next
  case False
  with assms show ?thesis
    by (simp add: on_response_def on_caught_def Let_def sleep_frame failures_sleep
        recordScrapeFailure_frame recordScrapeFailure_failures)
qed

text \<open>A response that is not ok, with the budget spent: the failure is recorded twice.\<close>

lemma on_response_exhausted:
  assumes "\<not> ok r" "\<not> int a \<le> max_retries opts"
  shows "\<exists>w'. on_response e opts h k a r w = Throw (exhausted_error opts k (status r) a) w' \<and>
          sent w' = sent w \<and> failures w' k = failures w k + 2"
  using assms
  by (simp add: on_response_def on_caught_def exhausted_error_def Let_def
      recordScrapeFailure_frame recordScrapeFailure_failures)

lemma fetch_attempt_failing:
  assumes "quiet e opts" "limiter_ok opts" "2 \<le> fuel" "failing e a"
  shows "\<exists>w'. fetch_attempt e fuel opts h k a w =
            Some (if int a \<le> max_retries opts then Continue w'
                  else Throw (exhausted_error opts k (answered e a) a) w') \<and>
          length (sent w') = length (sent w) + 1 \<and>
          failures w' k = failures w k +
            (if int a \<le> max_retries opts then (if answered e a \<in> RETRY_STATUS then 0 else 1) else 2)"
proof -
  from limit_opts_returns[OF assms(2,3)] obtain w1
    where w1: "limit_opts fuel h (rps opts) (burst opts) w = Some w1" by blast
  note f1 = limit_opts_frame[OF w1]
  from assms(4) obtain r where r: "result (upstream e a) = Inr r" "\<not> ok r"
    by (auto simp: failing_def split: sum.splits)
  then have st: "answered e a = status r" by (simp add: answered_def)
  obtain x w2 where d: "do_fetch e opts h a w1 = (x, w2)" by (cases "do_fetch e opts h a w1")
  with do_fetch_quiet[OF assms(1), of h a w1] r have x: "x = Inr r" by simp
  note f2 = do_fetch_frame[OF d]
  have na: "\<not> aborted opts (clock w1)" using assms(1) by (simp add: quiet_def aborted_def)
  have fa: "fetch_attempt e fuel opts h k a w = Some (on_response e opts h k a r w2)"
    using w1 na d x by (simp add: fetch_attempt_def)
  have s2: "length (sent w2) = length (sent w) + 1" using f1 f2 by simp
  have m2: "failures w2 k = failures w k" using f1 f2 by (simp add: failures_def)
  show ?thesis
  proof (cases "int a \<le> max_retries opts")
    case True
    from on_response_retry[OF r(2) True, of e h k w2] obtain w' where
      "on_response e opts h k a r w2 = Continue w'" "sent w' = sent w2"
      "failures w' k = failures w2 k + (if status r \<in> RETRY_STATUS then 0 else 1)" by blast
    with fa True s2 m2 st show ?thesis by auto
  next
    case False
    from on_response_exhausted[OF r(2) False, of e h k w2] obtain w' where
      "on_response e opts h k a r w2 = Throw (exhausted_error opts k (status r) a) w'"
      "sent w' = sent w2" "failures w' k = failures w2 k + 2" by blast
    with fa False s2 m2 st show ?thesis by auto
  qed
qed

text \<open>
  The whole loop against an upstream that never answers with an ok status: it uses up
  the budget, whatever the statuses are.
\<close>

lemma fetch_loop_all_failing:
  assumes "quiet e opts" "limiter_ok opts" "2 \<le> fuel" "all_failing e"
  shows "n = nat (max_retries opts - int a) \<Longrightarrow>
         \<exists>w'. fetch_loop e fuel opts h k a w =
                 Some (Inl (exhausted_error opts k (answered e (a + n + 1)) (a + n + 1)), w') \<and>
               length (sent w') = length (sent w) + n + 1"
proof (induction n arbitrary: a w)
  case 0
  then have last: "\<not> int (a + 1) \<le> max_retries opts" by simp
  from assms(4) have "failing e (a + 1)" by (simp add: all_failing_def)
  from fetch_attempt_failing[OF assms(1-3) this, of h k w] last obtain w' where
    "fetch_attempt e fuel opts h k (a + 1) w =
       Some (Throw (exhausted_error opts k (answered e (a + 1)) (a + 1)) w')"
    "length (sent w') = length (sent w) + 1"
    by auto
  then show ?case
    by (subst fetch_loop.simps) simp
next
  case (Suc n)
  then have more: "int (a + 1) \<le> max_retries opts" and n: "n = nat (max_retries opts - int (a + 1))"
    by auto
  from assms(4) have "failing e (a + 1)" by (simp add: all_failing_def)
  from fetch_attempt_failing[OF assms(1-3) this, of h k w] more obtain w1 where
    w1: "fetch_attempt e fuel opts h k (a + 1) w = Some (Continue w1)"
    "length (sent w1) = length (sent w) + 1"
    by auto
  from Suc.IH[OF n, of w1] obtain w' where
    w': "fetch_loop e fuel opts h k (a + 1) w1 =
           Some (Inl (exhausted_error opts k (answered e (a + 1 + n + 1)) (a + 1 + n + 1)), w')"
    "length (sent w') = length (sent w1) + n + 1"
    by blast
  have "fetch_loop e fuel opts h k a w = fetch_loop e fuel opts h k (a + 1) w1"
    using w1(1) by (subst fetch_loop.simps) simp
  with w' w1(2) show ?case by auto
qed

lemma fetchResponse_all_failing:
  assumes "quiet e opts" "limiter_ok opts" "2 \<le> fuel" "all_failing e" "host_of e (url opts) = Some h"
  shows "\<exists>w'. fetchResponse e fuel opts w =
            Some (Inl (exhausted_error opts (site_key opts h)
                        (answered e (nat (max_retries opts) + 1)) (nat (max_retries opts) + 1)), w') \<and>
          length (sent w') = length (sent w) + nat (max_retries opts) + 1"
  using fetch_loop_all_failing[OF assms(1-4), of "nat (max_retries opts)" 0 h "site_key opts h" w]
    assms(5)
  by (simp add: fetchResponse_def)

text \<open>
  C1 (amended). Against an upstream that answers every attempt with 503, in time and
  with no abort signal, a call with \<^verbatim>\<open>maxRetries = 2\<close> that the rate limiter lets through
  sends exactly three requests and then throws. What it throws is the
  \<^verbatim>\<open>ScraperError\<close> of the \<^verbatim>\<open>catch\<close> block, with status 503, the URL and the site; the
  \<^verbatim>\<open>FetchFailedError\<close> with \<^verbatim>\<open>attempt = 3\<close> is its cause.
\<close>

theorem fetchResponse_503_three_attempts:
  assumes "quiet e opts" "limiter_ok opts" "2 \<le> fuel" "host_of e (url opts) = Some h"
    and "maxRetries opts = Some 2"
    and "\<forall>n. \<exists>r. result (upstream e n) = Inr r \<and> status r = 503"
  shows "\<exists>w'. fetchResponse e fuel opts w =
            Some (Inl (ScraperError ''Fetch failed with status 503'' (Some 503) (Some (url opts))
                        (Some (site_key opts h))
                        (Some (FetchFailedError ''Fetch failed with status 503'' 3 (Some 503)
                                (url opts) (Some (site_key opts h))))), w') \<and>
          length (sent w') = length (sent w) + 3"
proof -
  have m: "max_retries opts = 2" using assms(5) by (simp add: max_retries_def)
  have af: "all_failing e"
    unfolding all_failing_def failing_def
  proof
    fix n
    from assms(6) obtain r where "result (upstream e n) = Inr r" "status r = 503" by blast
    then show "case result (upstream e n) of Inl err \<Rightarrow> False | Inr r \<Rightarrow> \<not> ok r"
      by (simp add: ok_def)
  qed
  have an: "answered e 3 = 503"
  proof -
    from assms(6) obtain r where "result (upstream e 3) = Inr r" "status r = 503" by blast
    then show ?thesis by (simp add: answered_def)
  qed
  have shown: "show_int 503 = ''503''" by code_simp
  from fetchResponse_all_failing[OF assms(1-3) af assms(4), of w] show ?thesis
    by (auto simp: m an exhausted_error_def shown Let_def)
qed

theorem fetchResponse_503_three_attempts_witness:
  "quiet (env_always 503) (opts_retry 2) \<and> limiter_ok (opts_retry 2) \<and>
   host_of (env_always 503) (url (opts_retry 2)) = Some ''site.test'' \<and>
   (\<exists>w'. fetchResponse (env_always 503) 2 (opts_retry 2) w_fresh =
            Some (Inl (ScraperError ''Fetch failed with status 503'' (Some 503)
                        (Some ''https://site.test/a'') (Some ''site.test'')
                        (Some (FetchFailedError ''Fetch failed with status 503'' 3 (Some 503)
                                ''https://site.test/a'' (Some ''site.test'')))), w') \<and>
          length (sent w') = 3)"
proof -
  have q: "quiet (env_always 503) (opts_retry 2)"
    by (simp add: quiet_def env_always_def opts_retry_def timeout_ms_def)
  have l: "limiter_ok (opts_retry 2)" by (simp add: limiter_ok_def opts_retry_def)
  have h: "host_of (env_always 503) (url (opts_retry 2)) = Some ''site.test''"
    by (simp add: env_always_def)
  have m: "maxRetries (opts_retry 2) = Some 2" by (simp add: opts_retry_def)
  have u: "\<forall>n. \<exists>r. result (upstream (env_always 503) n) = Inr r \<and> status r = 503"
    by (simp add: env_always_def answer_def)
  have f: "(2::nat) \<le> 2" by simp
  have k: "site_key (opts_retry 2) ''site.test'' = ''site.test''"
    by (simp add: site_key_def opts_retry_def)
  have a: "url (opts_retry 2) = ''https://site.test/a''" by (simp add: opts_retry_def)
  have s0: "length (sent w_fresh) = 0" by (simp add: w_fresh_def)
  show ?thesis
    using fetchResponse_503_three_attempts [OF q l f h m u, of w_fresh] q l h
    unfolding k a s0 by auto
qed

text \<open>
  C1 as stated fails: what the call raises is not a \<^verbatim>\<open>FetchFailedError\<close> and has no
  \<^verbatim>\<open>attempt\<close> field.
\<close>

theorem fetchResponse_503_counterexample:
  "observe ''site.test'' ''site.test'' (fetchResponse (env_always 503) 2 (opts_retry 2) w_fresh) =
     Some (Inl (exhausted_error (opts_retry 2) ''site.test'' 503 3), 3, 2, None, [], 2010) \<and>
   instanceof_FetchFailedError (exhausted_error (opts_retry 2) ''site.test'' 503 3) = False \<and>
   attempt_of (exhausted_error (opts_retry 2) ''site.test'' 503 3) = None"
  by code_simp

text \<open>
  An attempt that the rate limiter lets through before any abort and that is answered with
  a status that is not ok and lies outside the retryable set: the failure is recorded;
  then, while the budget lasts, the loop sleeps and goes on with the next attempt, and
  otherwise it records the failure once more and throws.
\<close>

lemma fetch_loop_hard_step:
  assumes "limit_opts fuel h (rps opts) (burst opts) v = Some v1" "\<not> aborted opts (clock v1)"
    and "do_fetch e opts h (a + 1) v1 = (Inr r, v2)" "\<not> ok r" "status r \<notin> RETRY_STATUS"
  shows "fetch_loop e fuel opts h k a v =
           (let msg = ''Fetch failed with status '' @ show_int (status r);
                v3 = recordScrapeFailure k (Some (status r)) msg (Some (url opts)) v2
            in if int (a + 1) \<le> max_retries opts
               then fetch_loop e fuel opts h k (a + 1)
                      (sleep (600 * 2 ^ a + math_random e (a + 1) * 400) v3)
               else Some (Inl (exhausted_error opts k (status r) (a + 1)),
                          recordScrapeFailure k (Some (status r)) msg (Some (url opts)) v3))"
proof -
  let ?msg = "''Fetch failed with status '' @ show_int (status r)"
  let ?v3 = "recordScrapeFailure k (Some (status r)) ?msg (Some (url opts)) v2"
  have fa: "fetch_attempt e fuel opts h k (a + 1) v = Some (on_response e opts h k (a + 1) r v2)"
    using assms(1-3) by (simp add: fetch_attempt_def)
  show ?thesis
  proof (cases "int (a + 1) \<le> max_retries opts")
    case True
    have "on_response e opts h k (a + 1) r v2 =
            Continue (sleep (600 * 2 ^ a + math_random e (a + 1) * 400) ?v3)"
      using assms(4,5) True by (simp add: on_response_def on_caught_def Let_def)
    with fa have "fetch_loop e fuel opts h k a v =
        fetch_loop e fuel opts h k (a + 1) (sleep (600 * 2 ^ a + math_random e (a + 1) * 400) ?v3)"
      by (subst fetch_loop.simps) simp
    with True show ?thesis by (simp add: Let_def)
  next
    case False
    have "on_response e opts h k (a + 1) r v2 =
            Throw (exhausted_error opts k (status r) (a + 1))
              (recordScrapeFailure k (Some (status r)) ?msg (Some (url opts)) ?v3)"
      using assms(4,5) False by (simp add: on_response_def on_caught_def exhausted_error_def Let_def)
    with fa have "fetch_loop e fuel opts h k a v =
        Some (Inl (exhausted_error opts k (status r) (a + 1)),
              recordScrapeFailure k (Some (status r)) ?msg (Some (url opts)) ?v3)"
      by (subst fetch_loop.simps) simp
    with False show ?thesis by (simp add: Let_def)
  qed
qed

text \<open>
  C2 (amended). A status that is not ok and lies outside the retryable set does not end
  the call while the budget lasts. Attempt by attempt: when attempt \<open>a + 1\<close> passes the
  rate limiter before any abort and is answered with such a status, the failure is
  recorded for the site and, if \<open>a + 1 \<le> maxRetries\<close>, the call sleeps
  \<open>600 * 2 ^ a + random * 400\<close> ms and goes on with attempt \<open>a + 2\<close>; only if
  \<open>a + 1 > maxRetries\<close> does it record the failure a second time and throw. For the whole
  call: against an upstream that answers every attempt with such a status (in time, with
  no abort signal, the rate limiter letting the call through) \<open>maxRetries + 1\<close> requests
  are sent before the call throws, a single one only when \<open>maxRetries \<le> 0\<close>.
\<close>

theorem fetchResponse_hard_status_retried:
  "(quiet e opts \<and> limiter_ok opts \<and> 2 \<le> fuel \<and> host_of e (url opts) = Some h \<and>
    (\<forall>n. \<exists>r. result (upstream e n) = Inr r \<and> \<not> ok r \<and> status r \<notin> RETRY_STATUS) \<longrightarrow>
      (\<exists>err w'. fetchResponse e fuel opts w = Some (Inl err, w') \<and>
         length (sent w') = length (sent w) + nat (max_retries opts) + 1)) \<and>
   (limit_opts fuel h (rps opts) (burst opts) v = Some v1 \<and> \<not> aborted opts (clock v1) \<and>
    do_fetch e opts h (a + 1) v1 = (Inr r, v2) \<and> \<not> ok r \<and> status r \<notin> RETRY_STATUS \<longrightarrow>
      fetch_loop e fuel opts h k a v =
        (let msg = ''Fetch failed with status '' @ show_int (status r);
             v3 = recordScrapeFailure k (Some (status r)) msg (Some (url opts)) v2
         in if int (a + 1) \<le> max_retries opts
            then fetch_loop e fuel opts h k (a + 1)
                   (sleep (600 * 2 ^ a + math_random e (a + 1) * 400) v3)
            else Some (Inl (exhausted_error opts k (status r) (a + 1)),
                       recordScrapeFailure k (Some (status r)) msg (Some (url opts)) v3)))"
proof (intro conjI impI)
  assume a: "quiet e opts \<and> limiter_ok opts \<and> 2 \<le> fuel \<and> host_of e (url opts) = Some h \<and>
    (\<forall>n. \<exists>r. result (upstream e n) = Inr r \<and> \<not> ok r \<and> status r \<notin> RETRY_STATUS)"
  have af: "all_failing e"
    unfolding all_failing_def failing_def
  proof
    fix n
    from a obtain r where "result (upstream e n) = Inr r" "\<not> ok r" by blast
    then show "case result (upstream e n) of Inl err \<Rightarrow> False | Inr r \<Rightarrow> \<not> ok r" by simp
  qed
  from a have q: "quiet e opts" and l: "limiter_ok opts" and f: "2 \<le> fuel"
    and h: "host_of e (url opts) = Some h" by simp_all
  from fetchResponse_all_failing[OF q l f af h, of w]
  show "\<exists>err w'. fetchResponse e fuel opts w = Some (Inl err, w') \<and>
         length (sent w') = length (sent w) + nat (max_retries opts) + 1"
    by blast
next
  assume "limit_opts fuel h (rps opts) (burst opts) v = Some v1 \<and> \<not> aborted opts (clock v1) \<and>
    do_fetch e opts h (a + 1) v1 = (Inr r, v2) \<and> \<not> ok r \<and> status r \<notin> RETRY_STATUS"
  then have "limit_opts fuel h (rps opts) (burst opts) v = Some v1" "\<not> aborted opts (clock v1)"
    "do_fetch e opts h (a + 1) v1 = (Inr r, v2)" "\<not> ok r" "status r \<notin> RETRY_STATUS"
    by simp_all
  then show "fetch_loop e fuel opts h k a v =
        (let msg = ''Fetch failed with status '' @ show_int (status r);
             v3 = recordScrapeFailure k (Some (status r)) msg (Some (url opts)) v2
         in if int (a + 1) \<le> max_retries opts
            then fetch_loop e fuel opts h k (a + 1)
                   (sleep (600 * 2 ^ a + math_random e (a + 1) * 400) v3)
            else Some (Inl (exhausted_error opts k (status r) (a + 1)),
                       recordScrapeFailure k (Some (status r)) msg (Some (url opts)) v3))"
    by (rule fetch_loop_hard_step)
qed

theorem fetchResponse_hard_status_retried_witness:
  "quiet (env_always 404) (opts_retry 2) \<and> limiter_ok (opts_retry 2) \<and>
   404 \<notin> RETRY_STATUS \<and> \<not> ok (answer 404) \<and>
   (\<exists>err w'. fetchResponse (env_always 404) 2 (opts_retry 2) w_fresh = Some (Inl err, w') \<and>
          length (sent w') = 3) \<and>
   limit_opts 2 ''site.test'' (rps (opts_retry 2)) (burst (opts_retry 2)) w_fresh = Some w_admitted \<and>
   \<not> aborted (opts_retry 2) (clock w_admitted) \<and>
   fst (do_fetch (env_always 404) (opts_retry 2) ''site.test'' 1 w_admitted) = Inr (answer 404) \<and>
   fetch_loop (env_always 404) 2 (opts_retry 2) ''site.test'' ''site.test'' 0 w_fresh =
     fetch_loop (env_always 404) 2 (opts_retry 2) ''site.test'' ''site.test'' 1
       (sleep 600
          (recordScrapeFailure ''site.test'' (Some 404) ''Fetch failed with status 404''
             (Some ''https://site.test/a'')
             (snd (do_fetch (env_always 404) (opts_retry 2) ''site.test'' 1 w_admitted))))"
proof -
  let ?e = "env_always 404" and ?o = "opts_retry 2" and ?h = "''site.test''"
  let ?v2 = "snd (do_fetch ?e ?o ?h 1 w_admitted)"
  have q: "quiet ?e ?o"
    by (simp add: quiet_def env_always_def opts_retry_def timeout_ms_def)
  have l: "limiter_ok ?o" by (simp add: limiter_ok_def opts_retry_def)
  have h: "host_of ?e (url ?o) = Some ?h"
    by (simp add: env_always_def)
  have nr: "404 \<notin> RETRY_STATUS" by (simp add: RETRY_STATUS_def)
  have nk: "\<not> ok (answer 404)" by (simp add: ok_def answer_def)
  have st: "status (answer 404) = 404" by (simp add: answer_def)
  have u: "\<forall>n. \<exists>r. result (upstream ?e n) = Inr r \<and> \<not> ok r \<and> status r \<notin> RETRY_STATUS"
    using nr nk by (simp add: env_always_def answer_def)
  have f: "(2::nat) \<le> 2" by simp
  have m: "max_retries ?o = 2" by (simp add: max_retries_def opts_retry_def)
  have s0: "length (sent w_fresh) = 0" by (simp add: w_fresh_def)
  have lim: "limit_opts 2 ?h (rps ?o) (burst ?o) w_fresh = Some w_admitted"
    by (simp add: limit_opts_def opts_retry_def numeral_2_eq_2 refill_def Let_def
        w_fresh_def w_admitted_def)
  have na: "\<not> aborted ?o (clock w_admitted)" by (simp add: aborted_def opts_retry_def)
  have df: "fst (do_fetch ?e ?o ?h 1 w_admitted) = Inr (answer 404)"
    using do_fetch_quiet[OF q, of ?h 1 w_admitted] by (simp add: env_always_def)
  then have d: "do_fetch ?e ?o ?h (0 + 1) w_admitted = (Inr (answer 404), ?v2)"
    by (simp add: prod_eq_iff)
  have shown: "show_int 404 = ''404''" by code_simp
  have rnd: "math_random ?e (0 + 1) = 0" by (simp add: env_always_def)
  have ur: "url ?o = ''https://site.test/a''" by (simp add: opts_retry_def)
  note t = fetchResponse_hard_status_retried [of ?e ?o 2 ?h w_fresh w_fresh w_admitted 0
      "answer 404" ?v2 ?h]
  from t q l f h u have run: "\<exists>err w'. fetchResponse ?e 2 ?o w_fresh = Some (Inl err, w') \<and>
          length (sent w') = length (sent w_fresh) + nat (max_retries ?o) + 1"
    by blast
  then have run3: "\<exists>err w'. fetchResponse ?e 2 ?o w_fresh = Some (Inl err, w') \<and> length (sent w') = 3"
    unfolding m s0 by auto
  from t lim na d nk nr st have "fetch_loop ?e 2 ?o ?h ?h 0 w_fresh =
        (let msg = ''Fetch failed with status '' @ show_int (status (answer 404));
             v3 = recordScrapeFailure ?h (Some (status (answer 404))) msg (Some (url ?o)) ?v2
         in if int (0 + 1) \<le> max_retries ?o
            then fetch_loop ?e 2 ?o ?h ?h (0 + 1)
                   (sleep (600 * 2 ^ 0 + math_random ?e (0 + 1) * 400) v3)
            else Some (Inl (exhausted_error ?o ?h (status (answer 404)) (0 + 1)),
                       recordScrapeFailure ?h (Some (status (answer 404))) msg (Some (url ?o)) v3))"
    by simp
  then have step: "fetch_loop ?e 2 ?o ?h ?h 0 w_fresh =
     fetch_loop ?e 2 ?o ?h ?h 1
       (sleep 600 (recordScrapeFailure ?h (Some 404) ''Fetch failed with status 404''
             (Some ''https://site.test/a'') ?v2))"
    unfolding st shown m rnd ur by (simp add: Let_def)
  from q l nr nk run3 lim na df step show ?thesis by blast
qed

text \<open>
  C2 as stated fails: with \<^verbatim>\<open>maxRetries = 2\<close> a 404, which is not in the retryable set,
  is requested three times.
\<close>

theorem fetchResponse_404_counterexample:
  "observe ''site.test'' ''site.test'' (fetchResponse (env_always 404) 2 (opts_retry 2) w_fresh) =
     Some (Inl (exhausted_error (opts_retry 2) ''site.test'' 404 3), 3, 4, None, [], 2010) \<and>
   (404 \<in> RETRY_STATUS) = False"
  by code_simp

text \<open>What one pass of the loop adds to the log and to the counter of the site.\<close>

lemma on_caught_count:
  "(case on_caught e opts k a err w of
      Continue v \<Rightarrow> int a \<le> max_retries opts \<and> sent v = sent w \<and> failures v k = failures w k
    | Return r v \<Rightarrow> False
    | Throw err' v \<Rightarrow> sent v = sent w)"
  by (simp add: on_caught_def Let_def failures_sleep sleep_frame recordScrapeFailure_frame)

lemma on_response_count:
  "(case on_response e opts h k a r w of
      Continue v \<Rightarrow> int a \<le> max_retries opts \<and> sent v = sent w \<and>
        failures v k = failures w k + (if \<not> ok r \<and> status r \<notin> RETRY_STATUS then 1 else 0)
    | Return r' v \<Rightarrow> ok r \<and> sent v = sent w
    | Throw err v \<Rightarrow> sent v = sent w \<and>
        (\<not> ok r \<and> \<not> int a \<le> max_retries opts \<longrightarrow> failures v k = failures w k + 2))"
proof (cases "status r \<in> RETRY_STATUS \<and> int a \<le> max_retries opts")
  case True
  then show ?thesis
    by (simp add: on_response_def sleep_frame failures_sleep)
next
  case False
  show ?thesis
  proof (cases "ok r")
    case True
    with False show ?thesis
      by (auto simp: on_response_def storeCookies_frame)
  next
    case nok: False
    show ?thesis
    proof (cases "int a \<le> max_retries opts")
      case True
      with False have "status r \<notin> RETRY_STATUS" by simp
      with nok True show ?thesis
        using on_response_retry[OF nok True, of e h k w] by auto
    next
      case spent: False
      with nok show ?thesis
        using on_response_exhausted[OF nok spent, of e h k w] by auto
    qed
  qed
qed

lemma fetch_attempt_log:
  assumes "fetch_attempt e fuel opts h k a w = Some stp"
  shows "(sent (world_of stp) = sent w \<and> (\<exists>err v. stp = Throw err v)) \<or>
         (\<exists>q. sent (world_of stp) = sent w @ [q] \<and>
              (case stp of
                 Continue v \<Rightarrow> \<not> exhausted_answer opts q \<and>
                   failures v k = failures w k + (if hard_answer q then 1 else 0)
               | Return r v \<Rightarrow> \<not> exhausted_answer opts q
               | Throw err v \<Rightarrow> exhausted_answer opts q \<longrightarrow> failures v k = failures w k + 2))"
proof -
  from assms(1) obtain w1 where w1: "limit_opts fuel h (rps opts) (burst opts) w = Some w1"
    by (auto simp: fetch_attempt_def split: option.splits)
  note f1 = limit_opts_frame[OF w1]
  show ?thesis
  proof (cases "aborted opts (clock w1)")
    case True
    with assms(1) w1 have "world_of stp = w1" "\<exists>err v. stp = Throw err v"
      by (auto simp: fetch_attempt_def)
    with f1 show ?thesis by simp
  next
    case False
    obtain x w2 where d: "do_fetch e opts h a w1 = (x, w2)" by (cases "do_fetch e opts h a w1")
    note f2 = do_fetch_frame[OF d]
    define q where "q = \<lparr>req_attempt = a, req_cookie = buildCookieHeader w1 h (cookies opts),
        req_started = clock w1,
        req_answer = (case x of Inr y \<Rightarrow> Some (status y) | Inl err \<Rightarrow> None)\<rparr>"
    have s2: "sent w2 = sent w @ [q]" using f1 f2 by (simp add: q_def)
    have m2: "failures w2 k = failures w k" using f1 f2 by (simp add: failures_def)
    show ?thesis
    proof (cases x)
      case (Inl err)
      with assms(1) w1 False d have stp: "stp = on_caught e opts k a err w2"
        by (simp add: fetch_attempt_def)
      have qa: "\<not> exhausted_answer opts q" "\<not> hard_answer q"
        using Inl by (simp_all add: q_def exhausted_answer_def hard_answer_def)
      have "sent (world_of stp) = sent w @ [q] \<and>
              (case stp of
                 Continue v \<Rightarrow> \<not> exhausted_answer opts q \<and>
                   failures v k = failures w k + (if hard_answer q then 1 else 0)
               | Return r v \<Rightarrow> \<not> exhausted_answer opts q
               | Throw err v \<Rightarrow> exhausted_answer opts q \<longrightarrow> failures v k = failures w k + 2)"
        using on_caught_count[where e=e and opts=opts and k=k and a=a and err=err and w=w2] s2 m2 qa unfolding stp
        by (cases "on_caught e opts k a err w2") simp_all
      then show ?thesis by blast
    next
      case (Inr r)
      with assms(1) w1 False d have stp: "stp = on_response e opts h k a r w2"
        by (simp add: fetch_attempt_def)
      have qa: "exhausted_answer opts q \<longleftrightarrow> \<not> ok r \<and> \<not> int a \<le> max_retries opts"
        "hard_answer q \<longleftrightarrow> \<not> ok r \<and> status r \<notin> RETRY_STATUS"
        using Inr by (simp_all add: q_def exhausted_answer_def hard_answer_def ok_def)
      have "sent (world_of stp) = sent w @ [q] \<and>
              (case stp of
                 Continue v \<Rightarrow> \<not> exhausted_answer opts q \<and>
                   failures v k = failures w k + (if hard_answer q then 1 else 0)
               | Return r v \<Rightarrow> \<not> exhausted_answer opts q
               | Throw err v \<Rightarrow> exhausted_answer opts q \<longrightarrow> failures v k = failures w k + 2)"
        using on_response_count[where e=e and opts=opts and h=h and k=k and a=a and r=r and w=w2] s2 m2 unfolding stp qa
        by (cases "on_response e opts h k a r w2") simp_all
      then show ?thesis by blast
    qed
  qed
qed

lemma fetch_loop_failure_count:
  "fetch_loop e fuel opts h k a w = Some (res, w') \<Longrightarrow>
   \<exists>new. sent w' = sent w @ new \<and>
     (new \<noteq> [] \<and> exhausted_answer opts (last new) \<longrightarrow>
        isl res \<and> failures w' k = failures w k + 2 + length (filter hard_answer (butlast new)))"
proof (induction e fuel opts h k a w rule: fetch_loop.induct)
  case (1 e fuel opts h k a w)
  from "1.prems"(1) obtain stp where stp: "fetch_attempt e fuel opts h k (a + 1) w = Some stp"
    by (subst (asm) fetch_loop.simps) (auto split: option.splits)
  note lg = fetch_attempt_log[OF stp]
  show ?case
  proof (cases stp)
    case (Continue w1)
    with stp "1.prems"(1) have run: "fetch_loop e fuel opts h k (a + 1) w1 = Some (res, w')"
      by (subst (asm) fetch_loop.simps) simp
    from "1.IH"[OF stp Continue run] obtain new2 where
      ih: "sent w' = sent w1 @ new2"
        "new2 \<noteq> [] \<and> exhausted_answer opts (last new2) \<longrightarrow>
           isl res \<and> failures w' k = failures w1 k + 2 + length (filter hard_answer (butlast new2))"
      by blast
    from lg Continue obtain q where
      q: "sent w1 = sent w @ [q]" "\<not> exhausted_answer opts q"
        "failures w1 k = failures w k + (if hard_answer q then 1 else 0)"
      by auto
    have s: "sent w' = sent w @ (q # new2)" using ih(1) q(1) by simp
    have "isl res \<and> failures w' k = failures w k + 2 + length (filter hard_answer (butlast (q # new2)))"
      if "exhausted_answer opts (last (q # new2))"
    proof (cases "new2 = []")
      case True
      with that q(2) show ?thesis by simp
    next
      case False
      with that ih(2) q(3) show ?thesis by simp
    qed
    with s show ?thesis by blast
  next
    case (Return r1 w1)
    with stp "1.prems"(1) have e: "res = Inr r1" "w' = w1"
      by (subst (asm) fetch_loop.simps, simp)+
    from lg Return obtain q where "sent w1 = sent w @ [q]" "\<not> exhausted_answer opts q"
      by auto
    with e have "sent w' = sent w @ [q] \<and>
        ([q] \<noteq> [] \<and> exhausted_answer opts (last [q]) \<longrightarrow>
           isl res \<and> failures w' k = failures w k + 2 + length (filter hard_answer (butlast [q])))"
      by simp
    then show ?thesis by blast
  next
    case (Throw err w1)
    with stp "1.prems"(1) have e: "res = Inl err" "w' = w1"
      by (subst (asm) fetch_loop.simps, simp)+
    from lg Throw consider "sent w1 = sent w" |
      q where "sent w1 = sent w @ [q]" "exhausted_answer opts q \<longrightarrow> failures w1 k = failures w k + 2"
      by auto
    then show ?thesis
    proof cases
      case 1
      with e have "sent w' = sent w @ [] \<and>
        ([] \<noteq> [] \<and> exhausted_answer opts (last []) \<longrightarrow>
           isl res \<and> failures w' k = failures w k + 2 + length (filter hard_answer (butlast [])))"
        by simp
      then show ?thesis by blast
    next
      case 2
      with e have "sent w' = sent w @ [q] \<and>
        ([q] \<noteq> [] \<and> exhausted_answer opts (last [q]) \<longrightarrow>
           isl res \<and> failures w' k = failures w k + 2 + length (filter hard_answer (butlast [q])))"
        by simp
      then show ?thesis by blast
    qed
  qed
qed

text \<open>
  C10 (amended). In the attempt that ends a call on a status that is not ok, with the
  budget spent, \<^verbatim>\<open>recordScrapeFailure\<close> runs twice for the site: once where the
  \<^verbatim>\<open>FetchFailedError\<close> is built and once in the \<^verbatim>\<open>catch\<close> block that wraps it. Every
  earlier attempt of the call that was answered with a status neither ok nor retryable
  has added 1 before it was retried; an earlier attempt that was answered with a
  retryable status, timed out or was rejected has added nothing. So a call whose last
  request was answered with a status that is not ok in an attempt beyond the budget ends
  in an error and raises the counter of the site by 2 plus the number of its earlier
  requests that were answered with a status neither ok nor retryable: by exactly 2 if and
  only if there is no such request.
\<close>

theorem fetchResponse_failure_count:
  "(fetchResponse e fuel opts w = Some (res, w') \<and> host_of e (url opts) = Some h \<and>
    ended_exhausted opts w w' \<longrightarrow>
      isl res \<and>
      failures w' (site_key opts h) =
        failures w (site_key opts h) + 2 +
          length (filter hard_answer (butlast (new_requests w w')))) \<and>
   (\<not> ok r \<and> \<not> int a \<le> max_retries opts \<longrightarrow>
      on_response e opts h k a r v =
        Throw (exhausted_error opts k (status r) a)
          (recordScrapeFailure k (Some (status r))
             (''Fetch failed with status '' @ show_int (status r)) (Some (url opts))
             (recordScrapeFailure k (Some (status r))
                (''Fetch failed with status '' @ show_int (status r)) (Some (url opts)) v)))"
proof (intro conjI impI)
  assume a: "fetchResponse e fuel opts w = Some (res, w') \<and> host_of e (url opts) = Some h \<and>
    ended_exhausted opts w w'"
  then have "fetchResponse e fuel opts w = Some (res, w')" and "host_of e (url opts) = Some h"
    by simp_all
  then have run: "fetch_loop e fuel opts h (site_key opts h) 0 w = Some (res, w')"
    by (simp add: fetchResponse_def)
  from fetch_loop_failure_count[OF run] obtain new where
    new: "sent w' = sent w @ new"
      "new \<noteq> [] \<and> exhausted_answer opts (last new) \<longrightarrow>
         isl res \<and> failures w' (site_key opts h) =
           failures w (site_key opts h) + 2 + length (filter hard_answer (butlast new))"
    by blast
  from new(1) have n: "new_requests w w' = new" by (simp add: new_requests_def)
  from a have "new \<noteq> [] \<and> exhausted_answer opts (last new)"
    by (simp add: ended_exhausted_def n)
  with new(2) have r: "isl res \<and> failures w' (site_key opts h) =
           failures w (site_key opts h) + 2 + length (filter hard_answer (butlast new))"
    by blast
  from r show "isl res" by simp
  from r show "failures w' (site_key opts h) =
        failures w (site_key opts h) + 2 + length (filter hard_answer (butlast (new_requests w w')))"
    unfolding n by simp
next
  assume "\<not> ok r \<and> \<not> int a \<le> max_retries opts"
  then show "on_response e opts h k a r v =
        Throw (exhausted_error opts k (status r) a)
          (recordScrapeFailure k (Some (status r))
             (''Fetch failed with status '' @ show_int (status r)) (Some (url opts))
             (recordScrapeFailure k (Some (status r))
                (''Fetch failed with status '' @ show_int (status r)) (Some (url opts)) v))"
    by (simp add: on_response_def on_caught_def exhausted_error_def Let_def)
qed

theorem fetchResponse_failure_count_witness:
  "(\<exists>res w'. fetchResponse (env_timeout_then 503) 2 (opts_retry 1) w_fresh = Some (res, w') \<and>
      ended_exhausted (opts_retry 1) w_fresh w' \<and> isl res \<and>
      map req_answer (new_requests w_fresh w') = [None, Some 503] \<and>
      failures w' ''site.test'' = 2) \<and>
   \<not> ok (answer 503) \<and> \<not> int 2 \<le> max_retries (opts_retry 1) \<and>
   failures (world_of (on_response (env_timeout_then 503) (opts_retry 1) ''site.test'' ''site.test''
                         2 (answer 503) w_fresh)) ''site.test'' = 2"
proof -
  let ?e = "env_timeout_then 503" and ?o = "opts_retry 1" and ?h = "''site.test''"
  have ev: "map_option (\<lambda>(res, w'). map (\<lambda>q. (req_attempt q, req_answer q)) (sent w'))
              (fetchResponse ?e 2 ?o w_fresh) = Some [(1, None), (2, Some 503)]"
    by code_simp
  then obtain res w' where run: "fetchResponse ?e 2 ?o w_fresh = Some (res, w')"
    and lg: "map (\<lambda>q. (req_attempt q, req_answer q)) (sent w') = [(1, None), (2, Some 503)]"
    by auto
  from lg obtain q1 q2 where s: "sent w' = [q1, q2]"
    and q1: "req_attempt q1 = 1" "req_answer q1 = None"
    and q2: "req_attempt q2 = 2" "req_answer q2 = Some 503"
    by auto
  have n: "new_requests w_fresh w' = [q1, q2]"
    by (simp add: new_requests_def w_fresh_def s)
  have m: "max_retries ?o = 1" by (simp add: max_retries_def opts_retry_def)
  have ee: "ended_exhausted ?o w_fresh w'"
    by (simp add: ended_exhausted_def n exhausted_answer_def q2 m)
  have h: "host_of ?e (url ?o) = Some ?h" by (simp add: env_timeout_then_def)
  have k: "site_key ?o ?h = ?h" by (simp add: site_key_def opts_retry_def)
  have f0: "failures w_fresh ?h = 0" by (simp add: failures_def w_fresh_def)
  have nh: "\<not> hard_answer q1" by (simp add: hard_answer_def q1)
  have nk: "\<not> ok (answer 503)" by (simp add: ok_def answer_def)
  have sp: "\<not> int 2 \<le> max_retries ?o" by (simp add: m)
  note t = fetchResponse_failure_count [of ?e 2 ?o w_fresh res w' ?h "answer 503" 2 ?h w_fresh]
  from t run h ee have c: "isl res \<and> failures w' (site_key ?o ?h) =
      failures w_fresh (site_key ?o ?h) + 2 + length (filter hard_answer (butlast (new_requests w_fresh w')))"
    by blast
  then have c2: "isl res" "failures w' ?h = 2"
    unfolding k f0 n using nh by simp_all
  from t nk sp have "on_response ?e ?o ?h ?h 2 (answer 503) w_fresh =
        Throw (exhausted_error ?o ?h (status (answer 503)) 2)
          (recordScrapeFailure ?h (Some (status (answer 503)))
             (''Fetch failed with status '' @ show_int (status (answer 503))) (Some (url ?o))
             (recordScrapeFailure ?h (Some (status (answer 503)))
                (''Fetch failed with status '' @ show_int (status (answer 503))) (Some (url ?o)) w_fresh))"
    by blast
  then have tw: "failures (world_of (on_response ?e ?o ?h ?h 2 (answer 503) w_fresh)) ?h = 2"
    by (simp add: recordScrapeFailure_failures f0)
  have an: "map req_answer (new_requests w_fresh w') = [None, Some 503]"
    by (simp add: n q1 q2)
  from run ee c2 an have "\<exists>res w'. fetchResponse ?e 2 ?o w_fresh = Some (res, w') \<and>
      ended_exhausted ?o w_fresh w' \<and> isl res \<and>
      map req_answer (new_requests w_fresh w') = [None, Some 503] \<and>
      failures w' ?h = 2"
    by (intro exI[of _ res] exI[of _ w']) simp
  with nk sp tw show ?thesis by blast
qed

text \<open>
  C10 as stated fails: with \<^verbatim>\<open>maxRetries = 1\<close> and an upstream that always answers 404, one
  failed call leaves the counter at 3.
\<close>

theorem fetchResponse_failure_count_counterexample:
  "observe ''site.test'' ''site.test'' (fetchResponse (env_always 404) 2 (opts_retry 1) w_fresh) =
     Some (Inl (exhausted_error (opts_retry 1) ''site.test'' 404 2), 2, 3, None, [], 620)"
  by code_simp

lemma last_success_sleep: "last_success (sleep ms w) k = last_success w k"
  by (simp add: last_success_def sleep_def)

lemma last_success_storeCookies: "last_success (storeCookies h r w) k = last_success w k"
  by (simp add: last_success_def storeCookies_frame)

lemma on_caught_frame:
  "sent (world_of (on_caught e opts k a err w)) = sent w \<and>
   clock w \<le> clock (world_of (on_caught e opts k a err w)) \<and>
   last_success (world_of (on_caught e opts k a err w)) k' = last_success w k' \<and>
   (\<forall>r w'. on_caught e opts k a err w \<noteq> Return r w')"
  by (simp add: on_caught_def Let_def sleep_frame last_success_sleep
      recordScrapeFailure_frame recordScrapeFailure_last_success)

lemma on_response_frame:
  "sent (world_of (on_response e opts h k a r w)) = sent w \<and>
   clock w \<le> clock (world_of (on_response e opts h k a r w)) \<and>
   last_success (world_of (on_response e opts h k a r w)) k' = last_success w k'"
proof (cases "status r \<in> RETRY_STATUS \<and> int a \<le> max_retries opts")
  case True
  then show ?thesis
    by (simp add: on_response_def sleep_frame last_success_sleep)
next
  case False
  show ?thesis
  proof (cases "ok r")
    case True
    with False show ?thesis
      by (auto simp: on_response_def storeCookies_frame last_success_storeCookies)
  next
    case nok: False
    let ?msg = "''Fetch failed with status '' @ show_int (status r)"
    let ?w1 = "recordScrapeFailure k (Some (status r)) ?msg (Some (url opts)) w"
    let ?err = "FetchFailedError ?msg a (Some (status r)) (url opts) (Some k)"
    have eq: "on_response e opts h k a r w = on_caught e opts k a ?err ?w1"
      using False nok by (auto simp: on_response_def Let_def)
    from on_caught_frame[of e opts k a ?err ?w1 k'] show ?thesis
      unfolding eq by (simp add: recordScrapeFailure_frame recordScrapeFailure_last_success)
  qed
qed



lemma fetch_attempt_last_success:
  assumes "fetch_attempt e fuel opts h k a w = Some stp"
  shows "last_success (world_of stp) k' = last_success w k'"
proof -
  from assms(1) obtain w1 where w1: "limit_opts fuel h (rps opts) (burst opts) w = Some w1"
    by (auto simp: fetch_attempt_def split: option.splits)
  from limit_opts_frame[OF w1] have l1: "last_success w1 k' = last_success w k'"
    by (simp add: last_success_def)
  show ?thesis
  proof (cases "aborted opts (clock w1)")
    case True
    with assms(1) w1 have "world_of stp = w1" by (auto simp: fetch_attempt_def)
    with l1 show ?thesis by simp
  next
    case False
    obtain x w2 where d: "do_fetch e opts h a w1 = (x, w2)" by (cases "do_fetch e opts h a w1")
    from do_fetch_frame[OF d] l1 have l2: "last_success w2 k' = last_success w k'"
      by (simp add: last_success_def)
    show ?thesis
    proof (cases x)
      case (Inl err)
      with assms(1) w1 False d have stp: "stp = on_caught e opts k a err w2"
        by (simp add: fetch_attempt_def)
      from on_caught_frame[of e opts k a err w2 k'] l2 show ?thesis unfolding stp by simp
    next
      case (Inr r)
      with assms(1) w1 False d have stp: "stp = on_response e opts h k a r w2"
        by (simp add: fetch_attempt_def)
      from on_response_frame[of e opts h k a r w2 k'] l2 show ?thesis unfolding stp by simp
    qed
  qed
qed




lemma fetch_loop_last_success:
  "fetch_loop e fuel opts h k a w = Some (r, w') \<Longrightarrow> last_success w' k' = last_success w k'"
proof (induction e fuel opts h k a w rule: fetch_loop.induct)
  case (1 e fuel opts h k a w)
  from "1.prems"(1) obtain stp where stp: "fetch_attempt e fuel opts h k (a + 1) w = Some stp"
    by (subst (asm) fetch_loop.simps) (auto split: option.splits)
  have st: "last_success (world_of stp) k' = last_success w k'"
    by (rule fetch_attempt_last_success[OF stp])
  show ?case
  proof (cases stp)
    case (Continue w1)
    with stp "1.prems"(1) have run: "fetch_loop e fuel opts h k (a + 1) w1 = Some (r, w')"
      by (subst (asm) fetch_loop.simps) simp
    have "last_success w' k' = last_success w1 k'"
      by (rule "1.IH"[OF stp Continue run])
    also have "last_success w1 k' = last_success (world_of stp) k'"
      unfolding Continue by simp
    also note st
    finally show ?thesis .
  next
    case (Return r1 w1)
    with stp "1.prems"(1) have "w' = w1"
      by (subst (asm) fetch_loop.simps) simp
    then have "last_success w' k' = last_success (world_of stp) k'"
      unfolding Return by simp
    also note st
    finally show ?thesis .
  next
    case (Throw err w1)
    with stp "1.prems"(1) have "w' = w1"
      by (subst (asm) fetch_loop.simps) simp
    then have "last_success w' k' = last_success (world_of stp) k'"
      unfolding Throw by simp
    also note st
    finally show ?thesis .
  qed
qed

text \<open>
  The fetcher never records a success: whatever a call does, the last success of every
  site is what it was before.
\<close>

lemma fetchResponse_last_success:
  "fetchResponse e fuel opts w = Some (r, w') \<Longrightarrow> last_success w' k' = last_success w k'"
proof (cases "host_of e (url opts)")
  case None
  then show "fetchResponse e fuel opts w = Some (r, w') \<Longrightarrow> ?thesis"
    by (simp add: fetchResponse_def)
next
  case (Some h)
  then show "fetchResponse e fuel opts w = Some (r, w') \<Longrightarrow> ?thesis"
    using fetch_loop_last_success[of e fuel opts h _ 0 w r w' k'] by (simp add: fetchResponse_def)
qed








text \<open>
  C6 at the failing input. A site has two failures on record and no success. A call is
  answered 200 with a cookie: the response is returned and the cookie is stored for the
  host, but the health record is untouched: no last success, and the counter still at 2.
\<close>

theorem fetchResponse_success_not_recorded:
  "observe ''site.test'' ''site.test'' (fetchResponse env_cookie 2 (opts_retry 2) w_two_failures) =
     Some (Inr answer_cookie, 1, 2, None, [(js ''sid'', js ''abc'')], 10) \<and>
   ok answer_cookie"
  by code_simp

end
